theory Spec2Isabelle
  imports Main "HOL-Library.Sublist"
begin

section \<open>Relume component scraper: data model\<close>

text \<open>
  The scraper (\<^verbatim>\<open>scraper.ts\<close>) discovers the components of a gallery and downloads each of
  them through an external browser-automation tool. JavaScript strings are modelled as
  \<^typ>\<open>string\<close>, one \<^typ>\<open>char\<close> per code unit, so a string of the model is a JavaScript
  string whose code units lie below 256 (ASCII and Latin-1). The regular expressions of the
  source only name ASCII classes and \<^verbatim>\<open>\s\<close>. The optional \<^verbatim>\<open>metadata\<close> field of a component
  is neither read nor written by the scraper and is left out of the record.
\<close>

record ComponentInfo =
  name :: string
  slug :: string
  category :: string
  subcategory :: string
  url :: string

record Catalog =
  totalComponents :: nat
  discoveredAt :: string
  components :: "ComponentInfo list"

record Progress =
  completed :: "string list"
  failed :: "string list"
  lastUpdated :: string

definition BASE_URL :: string where
  "BASE_URL = ''https://www.relume.io''"

definition LISTING_URL :: string where
  "LISTING_URL = BASE_URL @ ''/react/components''"

definition DELAY_MS :: nat where
  "DELAY_MS = 2000"

definition CATALOG_FILE :: string where
  "CATALOG_FILE = ''./catalog.json''"

definition PROGRESS_FILE :: string where
  "PROGRESS_FILE = ''./progress.json''"

definition COMPONENTS_DIR :: string where
  "COMPONENTS_DIR = ''./components''"

section \<open>Naming utilities\<close>

definition upper_letters :: string where
  "upper_letters = ''ABCDEFGHIJKLMNOPQRSTUVWXYZ''"

definition lower_letters :: string where
  "lower_letters = ''abcdefghijklmnopqrstuvwxyz''"

definition digit_chars :: string where
  "digit_chars = ''0123456789''"

text \<open>The classes \<^verbatim>\<open>[A-Z]\<close>, \<^verbatim>\<open>[a-z]\<close> and \<^verbatim>\<open>\d\<close>.\<close>

definition is_upper :: "char \<Rightarrow> bool" where
  "is_upper c = (c \<in> set upper_letters)"

definition is_lower :: "char \<Rightarrow> bool" where
  "is_lower c = (c \<in> set lower_letters)"

definition is_digit :: "char \<Rightarrow> bool" where
  "is_digit c = (c \<in> set digit_chars)"

text \<open>The class \<^verbatim>\<open>\s\<close>: tab, line feed, vertical tab, form feed, carriage return, space
  and the no-break space; the other Unicode spaces lie above the range of \<^typ>\<open>char\<close>.\<close>

definition is_space :: "char \<Rightarrow> bool" where
  "is_space c = (c \<in> {CHR 0x09, CHR 0x0A, CHR 0x0B, CHR 0x0C, CHR 0x0D, CHR 0x20, CHR 0xA0})"

text \<open>The letters of Latin-1 that have two cases: the capitals \<^verbatim>\<open>U+00C0\<close> to \<^verbatim>\<open>U+00DE\<close> without
  the multiplication sign \<^verbatim>\<open>U+00D7\<close>, and the small letters \<^verbatim>\<open>U+00E0\<close> to \<^verbatim>\<open>U+00FE\<close>
  without the division sign \<^verbatim>\<open>U+00F7\<close>, each 32 above its capital.\<close>

definition latin_upper :: string where
  "latin_upper =
     [CHR 0xC0, CHR 0xC1, CHR 0xC2, CHR 0xC3, CHR 0xC4, CHR 0xC5, CHR 0xC6, CHR 0xC7,
      CHR 0xC8, CHR 0xC9, CHR 0xCA, CHR 0xCB, CHR 0xCC, CHR 0xCD, CHR 0xCE, CHR 0xCF,
      CHR 0xD0, CHR 0xD1, CHR 0xD2, CHR 0xD3, CHR 0xD4, CHR 0xD5, CHR 0xD6, CHR 0xD8,
      CHR 0xD9, CHR 0xDA, CHR 0xDB, CHR 0xDC, CHR 0xDD, CHR 0xDE]"

definition latin_lower :: string where
  "latin_lower =
     [CHR 0xE0, CHR 0xE1, CHR 0xE2, CHR 0xE3, CHR 0xE4, CHR 0xE5, CHR 0xE6, CHR 0xE7,
      CHR 0xE8, CHR 0xE9, CHR 0xEA, CHR 0xEB, CHR 0xEC, CHR 0xED, CHR 0xEE, CHR 0xEF,
      CHR 0xF0, CHR 0xF1, CHR 0xF2, CHR 0xF3, CHR 0xF4, CHR 0xF5, CHR 0xF6, CHR 0xF8,
      CHR 0xF9, CHR 0xFA, CHR 0xFB, CHR 0xFC, CHR 0xFD, CHR 0xFE]"

text \<open>\<^verbatim>\<open>toLowerCase\<close> on one code unit: the capitals \<^verbatim>\<open>A-Z\<close> and those of Latin-1 go to their
  small letters, every other code unit below 256 stays.\<close>

definition lower_char :: "char \<Rightarrow> char" where
  "lower_char c =
     (case map_of (zip (upper_letters @ latin_upper) (lower_letters @ latin_lower)) c of
        Some d \<Rightarrow> d
      | None \<Rightarrow> c)"

text \<open>\<^verbatim>\<open>toUpperCase\<close> on one code unit: the small letters \<^verbatim>\<open>a-z\<close> and those of Latin-1 go to
  their capitals and the sharp s \<^verbatim>\<open>U+00DF\<close> to the two letters \<^verbatim>\<open>SS\<close>. The capitals of the
  micro sign \<^verbatim>\<open>U+00B5\<close> and of \<^verbatim>\<open>U+00FF\<close> are \<^verbatim>\<open>U+039C\<close> and \<^verbatim>\<open>U+0178\<close>, which lie above
  the range of \<^typ>\<open>char\<close>: the model has no value for them and leaves these two code units
  as they are, so it follows the source on every string that has neither of them at the
  head of a piece of a slug.\<close>

definition upper_char :: "char \<Rightarrow> string" where
  "upper_char c =
     (if c = CHR 0xDF then ''SS''
      else (case map_of (zip (lower_letters @ latin_lower) (upper_letters @ latin_upper)) c of
              Some d \<Rightarrow> [d]
            | None \<Rightarrow> [c]))"

definition toLowerCase :: "string \<Rightarrow> string" where
  "toLowerCase s = map lower_char s"

definition toUpperCase :: "string \<Rightarrow> string" where
  "toUpperCase s = concat (map upper_char s)"

text \<open>The ASCII code units, those below 128.\<close>

definition is_ascii :: "char \<Rightarrow> bool" where
  "is_ascii c = (of_char c < (128 :: nat))"

text \<open>\<^verbatim>\<open>name.replace(/[^a-z0-9-]/gi, '')\<close>: every code unit outside the class is deleted.
  With the flag \<^verbatim>\<open>i\<close> (and without \<^verbatim>\<open>u\<close>) the class \<^verbatim>\<open>a-z\<close> also takes the letters
  \<^verbatim>\<open>A-Z\<close>, and nothing else.\<close>

definition filename_char :: "char \<Rightarrow> bool" where
  "filename_char c = (is_lower c \<or> is_upper c \<or> is_digit c \<or> c = CHR ''-'')"

definition sanitizeFilename :: "string \<Rightarrow> string" where
  "sanitizeFilename nm = filter filename_char nm"

text \<open>\<^verbatim>\<open>s.split('-')\<close>: the pieces between the hyphens; the empty string gives one empty
  piece.\<close>

fun split_on :: "char \<Rightarrow> string \<Rightarrow> string list" where
  "split_on d [] = [[]]"
| "split_on d (c # cs) =
     (if c = d then [] # split_on d cs
      else (case split_on d cs of
              [] \<Rightarrow> [[c]]
            | p # ps \<Rightarrow> (c # p) # ps))"

text \<open>\<^verbatim>\<open>part.charAt(0).toUpperCase() + part.slice(1)\<close>\<close>

definition capitalize :: "string \<Rightarrow> string" where
  "capitalize part = toUpperCase (take 1 part) @ drop 1 part"

definition toPascalCase :: "string \<Rightarrow> string" where
  "toPascalCase sl = concat (map capitalize (split_on (CHR ''-'') sl))"

text \<open>\<^verbatim>\<open>s.replace(/\s+/g, r)\<close>: every maximal run of white space becomes \<open>r\<close>.\<close>

function replace_spaces :: "string \<Rightarrow> string \<Rightarrow> string" where
  "replace_spaces r [] = []"
| "replace_spaces r (c # cs) =
     (if is_space c then r @ replace_spaces r (dropWhile is_space cs)
      else c # replace_spaces r cs)"
  by pat_completeness auto
termination
  by (relation "measure (\<lambda>(r, s). length s)")
     (auto simp: length_dropWhile_le less_Suc_eq_le)

definition nameToSlug :: "string \<Rightarrow> string" where
  "nameToSlug nm = replace_spaces ''-'' (toLowerCase nm)"

section \<open>The work set of a download run\<close>

text \<open>\<^verbatim>\<open>xs.includes(x)\<close> on an array of strings.\<close>

definition array_includes :: "string list \<Rightarrow> string \<Rightarrow> bool" where
  "array_includes xs x = (x \<in> set xs)"

text \<open>Lines 266-268 of \<^verbatim>\<open>downloadComponents\<close>:
  \<^verbatim>\<open>catalog.components.filter(c => !progress.completed.includes(c.slug) &&
  !progress.failed.includes(c.slug))\<close>\<close>

definition remaining_of :: "Catalog \<Rightarrow> Progress \<Rightarrow> ComponentInfo list" where
  "remaining_of catalog progress =
     filter (\<lambda>c. \<not> array_includes (completed progress) (slug c) \<and> \<not> array_includes (failed progress) (slug c))
       (components catalog)"

section \<open>JavaScript values read from JSON\<close>

text \<open>A value produced by \<^verbatim>\<open>JSON.parse\<close>. \<^verbatim>\<open>undefined\<close> is \<open>None\<close> of the option type over it.
  An object lists each of its properties once. A number is kept as the text that
  \<^verbatim>\<open>String\<close> gives for it, which is all the scraper does with a number besides testing it
  for zero: \<^verbatim>\<open>0\<close> for both zeros, \<^verbatim>\<open>1e+21\<close> for \<^verbatim>\<open>1e21\<close>.\<close>

datatype json =
    JNull
  | JBool bool
  | JNum string
  | JStr string
  | JArr "json list"
  | JObj "(string \<times> json) list"

text \<open>Property access \<^verbatim>\<open>v.k\<close>: a \<^verbatim>\<open>TypeError\<close> on \<^verbatim>\<open>null\<close>, the property of an object,
  \<^verbatim>\<open>undefined\<close> on everything else (none of the keys read by the scraper is a property of
  a string, a number, a boolean or an array).\<close>

definition get_prop :: "json \<Rightarrow> string \<Rightarrow> json option option" where
  "get_prop v k =
     (case v of
        JNull \<Rightarrow> None
      | JObj fs \<Rightarrow> Some (map_of fs k)
      | _ \<Rightarrow> Some None)"

fun truthy :: "json option \<Rightarrow> bool" where
  "truthy None = False"
| "truthy (Some JNull) = False"
| "truthy (Some (JBool b)) = b"
| "truthy (Some (JNum n)) = (n \<noteq> ''0'')"
| "truthy (Some (JStr s)) = (s \<noteq> [])"
| "truthy (Some (JArr xs)) = True"
| "truthy (Some (JObj fs)) = True"

fun join_with :: "string \<Rightarrow> string list \<Rightarrow> string" where
  "join_with sep [] = []"
| "join_with sep [x] = x"
| "join_with sep (x # y # ys) = x @ sep @ join_with sep (y # ys)"

text \<open>\<^verbatim>\<open>String(v)\<close>, as string concatenation, template literals and \<^verbatim>\<open>JSON.parse\<close> apply it
  to their argument.\<close>

fun js_string :: "json \<Rightarrow> string" where
  "js_string JNull = ''null''"
| "js_string (JBool b) = (if b then ''true'' else ''false'')"
| "js_string (JNum n) = n"
| "js_string (JStr s) = s"
| "js_string (JArr xs) = join_with '','' (map (\<lambda>x. if x = JNull then [] else js_string x) xs)"
| "js_string (JObj fs) = ''[object Object]''"

definition js_string_opt :: "json option \<Rightarrow> string" where
  "js_string_opt v = (case v of None \<Rightarrow> ''undefined'' | Some x \<Rightarrow> js_string x)"

section \<open>The outside world\<close>

text \<open>The reply of the automation tool to one command, after \<^verbatim>\<open>JSON.parse(stdout)\<close>: the
  fields of the envelope that the scraper reads.\<close>

record envelope =
  success :: bool
  message :: "string option"
  error :: "string option"
  screenshot :: "string option"

text \<open>\<open>Crash\<close>: the child process failed or its output was no JSON object.\<close>

datatype answer = Crash string | Answer envelope

datatype report = Usage | NoComponents | FatalError string | AllDone

text \<open>What a run does to the world, in order. Of the console output only the lines of
  \<^verbatim>\<open>main\<close> are kept; the progress lines of the two phases are left out.\<close>

datatype event =
    Exec string
  | Sleep nat
  | ReadFile string
  | WriteFile string string
  | CopyFile string string
  | Mkdir string
  | Console report

text \<open>The environment answers from the history of the run. \<open>respond\<close> is the automation
  tool, \<open>fs_fault\<close> the refusal of a file operation by the operating system, \<open>outside\<close>
  the files that others put on the disk (the tool's screenshots), \<open>clock\<close> the time as
  \<^verbatim>\<open>toISOString\<close> prints it. The remaining fields are the library functions
  \<^verbatim>\<open>JSON.parse\<close>, \<^verbatim>\<open>JSON.stringify\<close> and \<^verbatim>\<open>parseInt\<close>; the TypeScript types declare a
  parsed catalog document to be a \<open>Catalog\<close> and a parsed progress document to be a
  \<open>Progress\<close>.\<close>

record env =
  respond :: "event list \<Rightarrow> string \<Rightarrow> answer"
  fs_fault :: "event list \<Rightarrow> event \<Rightarrow> string option"
  outside :: "event list \<Rightarrow> string \<Rightarrow> string option"
  clock :: "event list \<Rightarrow> string"
  json_parse :: "string \<Rightarrow> json option"
  catalog_parse :: "string \<Rightarrow> Catalog option"
  catalog_show :: "Catalog \<Rightarrow> string"
  progress_parse :: "string \<Rightarrow> Progress option"
  progress_show :: "Progress \<Rightarrow> string"
  parse_int :: "string \<Rightarrow> int option"

record state =
  trace :: "event list"
  files :: "string \<Rightarrow> string option"

text \<open>An asynchronous function returns, throws an error (its message), or the process
  exits with a status. In each case the effects performed so far stay.\<close>

datatype 'a outcome = Return 'a | Throw string | Exit nat

type_synonym 'a proc = "state \<Rightarrow> 'a outcome \<times> state"

definition ret :: "'a \<Rightarrow> 'a proc" where
  "ret x s = (Return x, s)"

definition throw :: "string \<Rightarrow> 'a proc" where
  "throw e s = (Throw e, s)"

definition process_exit :: "nat \<Rightarrow> 'a proc" where
  "process_exit n s = (Exit n, s)"

definition bind :: "'a proc \<Rightarrow> ('a \<Rightarrow> 'b proc) \<Rightarrow> 'b proc" where
  "bind m f s =
     (case m s of
        (Return x, s1) \<Rightarrow> f x s1
      | (Throw e, s1) \<Rightarrow> (Throw e, s1)
      | (Exit n, s1) \<Rightarrow> (Exit n, s1))"

text \<open>\<^verbatim>\<open>try { m } catch (e) { h e }\<close>; \<^verbatim>\<open>process.exit\<close> is not caught.\<close>

definition try_catch :: "'a proc \<Rightarrow> (string \<Rightarrow> 'a proc) \<Rightarrow> 'a proc" where
  "try_catch m h s =
     (case m s of
        (Return x, s1) \<Rightarrow> (Return x, s1)
      | (Throw e, s1) \<Rightarrow> h e s1
      | (Exit n, s1) \<Rightarrow> (Exit n, s1))"

definition emit :: "event \<Rightarrow> state \<Rightarrow> state" where
  "emit e s = s\<lparr>trace := trace s @ [e]\<rparr>"

definition console :: "report \<Rightarrow> unit proc" where
  "console r s = (Return (), emit (Console r) s)"

text \<open>\<^verbatim>\<open>throw new Error(result.error || result.message)\<close>\<close>

definition failure_message :: "envelope \<Rightarrow> string" where
  "failure_message r =
     (case error r of
        Some e \<Rightarrow> if e \<noteq> [] then e else (case message r of Some m \<Rightarrow> m | None \<Rightarrow> [])
      | None \<Rightarrow> (case message r of Some m \<Rightarrow> m | None \<Rightarrow> []))"

definition browserCommand :: "env \<Rightarrow> string \<Rightarrow> envelope proc" where
  "browserCommand ev command s =
     (case respond ev (trace s) command of
        Crash msg \<Rightarrow> (Throw msg, emit (Exec command) s)
      | Answer r \<Rightarrow>
          if success r then (Return r, emit (Exec command) s)
          else (Throw (failure_message r), emit (Exec command) s))"

definition delay :: "nat \<Rightarrow> unit proc" where
  "delay ms s = (Return (), emit (Sleep ms) s)"

subsection \<open>The file system\<close>

definition disk :: "env \<Rightarrow> state \<Rightarrow> string \<Rightarrow> string option" where
  "disk ev s p = (case files s p of Some d \<Rightarrow> Some d | None \<Rightarrow> outside ev (trace s) p)"

definition readFile :: "env \<Rightarrow> string \<Rightarrow> string proc" where
  "readFile ev p s =
     (case fs_fault ev (trace s) (ReadFile p) of
        Some e \<Rightarrow> (Throw e, emit (ReadFile p) s)
      | None \<Rightarrow>
          (case disk ev s p of
             None \<Rightarrow> (Throw ''ENOENT: no such file or directory'', emit (ReadFile p) s)
           | Some d \<Rightarrow> (Return d, emit (ReadFile p) s)))"

definition writeFile :: "env \<Rightarrow> string \<Rightarrow> string \<Rightarrow> unit proc" where
  "writeFile ev p d s =
     (case fs_fault ev (trace s) (WriteFile p d) of
        Some e \<Rightarrow> (Throw e, emit (WriteFile p d) s)
      | None \<Rightarrow> (Return (), (emit (WriteFile p d) s)\<lparr>files := (files s)(p \<mapsto> d)\<rparr>))"

text \<open>\<^verbatim>\<open>fs.copyFile(src, dest)\<close>; a source that is \<^verbatim>\<open>undefined\<close> is a \<^verbatim>\<open>TypeError\<close>.\<close>

definition copyFile :: "env \<Rightarrow> string option \<Rightarrow> string \<Rightarrow> unit proc" where
  "copyFile ev src dst s =
     (case src of
        None \<Rightarrow> (Throw ''TypeError: The src argument must be of type string'', s)
      | Some sp \<Rightarrow>
          (case fs_fault ev (trace s) (CopyFile sp dst) of
             Some e \<Rightarrow> (Throw e, emit (CopyFile sp dst) s)
           | None \<Rightarrow>
               (case disk ev s sp of
                  None \<Rightarrow> (Throw ''ENOENT: no such file or directory'', emit (CopyFile sp dst) s)
                | Some d \<Rightarrow> (Return (), (emit (CopyFile sp dst) s)\<lparr>files := (files s)(dst \<mapsto> d)\<rparr>))))"

definition ensureDir :: "env \<Rightarrow> string \<Rightarrow> unit proc" where
  "ensureDir ev dirPath s =
     (case fs_fault ev (trace s) (Mkdir dirPath) of
        Some e \<Rightarrow> (Throw e, emit (Mkdir dirPath) s)
      | None \<Rightarrow> (Return (), emit (Mkdir dirPath) s))"

subsection \<open>Catalog and progress documents\<close>

definition fresh_catalog :: "string \<Rightarrow> Catalog" where
  "fresh_catalog now = \<lparr>totalComponents = 0, discoveredAt = now, components = []\<rparr>"

definition fresh_progress :: "string \<Rightarrow> Progress" where
  "fresh_progress now = \<lparr>completed = [], failed = [], lastUpdated = now\<rparr>"

definition loadCatalog :: "env \<Rightarrow> Catalog proc" where
  "loadCatalog ev =
     try_catch
       (bind (readFile ev CATALOG_FILE)
          (\<lambda>data. case catalog_parse ev data of
                     None \<Rightarrow> throw ''SyntaxError''
                   | Some c \<Rightarrow> ret c))
       (\<lambda>e s. (Return (fresh_catalog (clock ev (trace s))), s))"

definition saveCatalog :: "env \<Rightarrow> Catalog \<Rightarrow> unit proc" where
  "saveCatalog ev catalog = writeFile ev CATALOG_FILE (catalog_show ev catalog)"

definition loadProgress :: "env \<Rightarrow> Progress proc" where
  "loadProgress ev =
     try_catch
       (bind (readFile ev PROGRESS_FILE)
          (\<lambda>data. case progress_parse ev data of
                     None \<Rightarrow> throw ''SyntaxError''
                   | Some p \<Rightarrow> ret p))
       (\<lambda>e s. (Return (fresh_progress (clock ev (trace s))), s))"

text \<open>\<^verbatim>\<open>saveProgress\<close> stamps the record, then writes it. The stamp is a mutation of the
  record and stays when the write throws.\<close>

definition stamp :: "env \<Rightarrow> Progress \<Rightarrow> state \<Rightarrow> Progress" where
  "stamp ev progress s = progress\<lparr>lastUpdated := clock ev (trace s)\<rparr>"

definition saveProgress :: "env \<Rightarrow> Progress \<Rightarrow> Progress proc" where
  "saveProgress ev progress s =
     bind (writeFile ev PROGRESS_FILE (progress_show ev (stamp ev progress s)))
       (\<lambda>_. ret (stamp ev progress s)) s"

section \<open>Text scanning\<close>

text \<open>\<^verbatim>\<open>text.match(/\{.*\}/s)\<close>: from the first opening brace to the last closing brace
  after it.\<close>

definition match_braces :: "string \<Rightarrow> string option" where
  "match_braces s =
     (let t = dropWhile (\<lambda>c. c \<noteq> CHR ''{'') s in
      if t = [] then None
      else (let r = rev (dropWhile (\<lambda>c. c \<noteq> CHR ''}'') (rev (tl t))) in
            if r = [] then None else Some (CHR ''{'' # r)))"

text \<open>\<^verbatim>\<open>[A-Z][a-z]+\<close> at the start of a string: the word and what follows it.\<close>

definition match_word :: "string \<Rightarrow> (string \<times> string) option" where
  "match_word s =
     (case s of
        [] \<Rightarrow> None
      | c # cs \<Rightarrow>
          if is_upper c \<and> takeWhile is_lower cs \<noteq> []
          then Some (c # takeWhile is_lower cs, dropWhile is_lower cs)
          else None)"

text \<open>\<^verbatim>\<open>(?:[A-Z][a-z]+)*\<close>: the number of characters the repetition takes.\<close>

function match_words :: "string \<Rightarrow> nat" where
  "match_words s =
     (case match_word s of
        None \<Rightarrow> 0
      | Some (w, rest) \<Rightarrow> length w + match_words (drop (length w) s))"
  by pat_completeness auto
termination
  by (relation "measure length") (auto simp: match_word_def split: list.splits if_splits)

declare match_words.simps [simp del]

text \<open>\<^verbatim>\<open>[A-Z][a-z]+\s*(?:[A-Z][a-z]+)*\s*\d+\<close> at the start of a string: the text matched.
  The four classes are disjoint, so each repetition takes all it can.\<close>

definition match_name :: "string \<Rightarrow> string option" where
  "match_name s =
     (case match_word s of
        None \<Rightarrow> None
      | Some (w, r1) \<Rightarrow>
          (let r2 = dropWhile is_space r1;
               r3 = drop (match_words r2) r2;
               r4 = dropWhile is_space r3;
               ds = takeWhile is_digit r4
           in if ds = [] then None
              else Some (take (length s - length r4 + length ds) s)))"

text \<open>\<^verbatim>\<open>text.match(/(...)/g)\<close>: the matches from left to right, each search starting where
  the previous match ended; no match gives \<^verbatim>\<open>null\<close>, which the caller treats as no names.\<close>

function scan_names :: "string \<Rightarrow> string list" where
  "scan_names [] = []"
| "scan_names (c # cs) =
     (case match_name (c # cs) of
        None \<Rightarrow> scan_names cs
      | Some m \<Rightarrow> m # scan_names (drop (length m - 1) cs))"
  by pat_completeness auto
termination
  by (relation "measure length") auto

text \<open>\<^verbatim>\<open>name.replace(/\s*\d+$/, '')\<close>\<close>

definition strip_index :: "string \<Rightarrow> string" where
  "strip_index nm =
     (if takeWhile is_digit (rev nm) = [] then nm
      else rev (dropWhile is_space (dropWhile is_digit (rev nm))))"

definition trim :: "string \<Rightarrow> string" where
  "trim s = rev (dropWhile is_space (rev (dropWhile is_space s)))"

text \<open>\<^verbatim>\<open>s.includes(sub)\<close> on strings.\<close>

fun str_includes :: "string \<Rightarrow> string \<Rightarrow> bool" where
  "str_includes [] sub = (sub = [])"
| "str_includes (c # cs) sub = (prefix sub (c # cs) \<or> str_includes cs sub)"

subsection \<open>\<^verbatim>\<open>path.join\<close> (POSIX)\<close>

fun normalize_segments :: "bool \<Rightarrow> string list \<Rightarrow> string list \<Rightarrow> string list" where
  "normalize_segments up res [] = res"
| "normalize_segments up res (seg # segs) =
     (if seg = [] \<or> seg = ''.'' then normalize_segments up res segs
      else if seg = ''..'' then
        (if res \<noteq> [] \<and> last res \<noteq> ''..'' then normalize_segments up (butlast res) segs
         else if up then normalize_segments up (res @ [''..'']) segs
         else normalize_segments up res segs)
      else normalize_segments up (res @ [seg]) segs)"

definition path_normalize :: "string \<Rightarrow> string" where
  "path_normalize p =
     (if p = [] then ''.''
      else (let absolute = (hd p = CHR ''/'');
                trailing = (last p = CHR ''/'');
                q = join_with ''/'' (normalize_segments (\<not> absolute) [] (split_on (CHR ''/'') p))
            in if q = [] then (if absolute then ''/'' else if trailing then ''./'' else ''.'')
               else (if absolute then ''/'' else []) @ q @ (if trailing then ''/'' else [])))"

definition path_join :: "string list \<Rightarrow> string" where
  "path_join args =
     (if filter (\<lambda>a. a \<noteq> []) args = [] then ''.''
      else path_normalize (join_with ''/'' (filter (\<lambda>a. a \<noteq> []) args)))"

section \<open>Phase 1: discovery\<close>

definition navigate_command :: "string \<Rightarrow> string" where
  "navigate_command u = ''browser navigate \"'' @ u @ ''\"''"

definition categories_command :: string where
  "categories_command =
     ''browser extract \"get all category names and subcategory names from the left sidebar navigation\" ''
     @ [CHR 0x27] @ ''{\"categories\": \"string\"}'' @ [CHR 0x27]"

definition components_command :: string where
  "components_command =
     ''browser extract \"get all component names from the component cards visible on this page\" ''
     @ [CHR 0x27] @ ''{\"components\": \"string\"}'' @ [CHR 0x27]"

definition next_page_command :: string where
  "next_page_command = ''browser act \"click the next page button\"''"

text \<open>\<^verbatim>\<open>`${BASE_URL}/react-components/${slug}`\<close>\<close>

definition page_url :: "string \<Rightarrow> string" where
  "page_url sl = BASE_URL @ ''/react-components/'' @ sl"

text \<open>Lines 200-228: the catalog entry of one component name.\<close>

definition classify :: "string \<Rightarrow> string \<times> string" where
  "classify sub =
     (if str_includes sub ''Application Shell'' then (''Application UI'', ''Application Shells'')
      else if str_includes sub ''Navbar'' then (''Marketing'', ''Navbars'')
      else if str_includes sub ''Blog'' then (''Marketing'', ''Blogs'')
      else if str_includes sub ''Banner'' then (''Marketing'', ''Banners'')
      else (''Unknown'', sub))"

definition component_of_name :: "string \<Rightarrow> ComponentInfo" where
  "component_of_name nm =
     \<lparr>name = nm,
      slug = nameToSlug nm,
      category = fst (classify (trim (strip_index nm))),
      subcategory = snd (classify (trim (strip_index nm))),
      url = page_url (nameToSlug nm)\<rparr>"

text \<open>\<^verbatim>\<open>item.name || item\<close>; \<open>None\<close> is the \<^verbatim>\<open>TypeError\<close> on a \<^verbatim>\<open>null\<close> item.\<close>

definition item_name :: "json \<Rightarrow> json option" where
  "item_name item =
     (case get_prop item ''name'' of
        None \<Rightarrow> None
      | Some v \<Rightarrow> if truthy v then v else Some item)"

text \<open>The regular-expression scan of lines 192-195; \<^verbatim>\<open>componentsText.match\<close> is a
  \<^verbatim>\<open>TypeError\<close> unless the text is a string.\<close>

definition fallback_names :: "json option \<Rightarrow> json list option" where
  "fallback_names componentsText =
     (case componentsText of
        Some (JStr t) \<Rightarrow> Some (map JStr (scan_names t))
      | _ \<Rightarrow> None)"

text \<open>Lines 184-196: the names recovered from the \<^verbatim>\<open>components\<close> field; \<open>None\<close> when the
  block throws.\<close>

definition component_names :: "env \<Rightarrow> json option \<Rightarrow> json list option" where
  "component_names ev componentsText =
     (case json_parse ev (js_string_opt componentsText) of
        None \<Rightarrow> fallback_names componentsText
      | Some (JArr items) \<Rightarrow>
          if list_all (\<lambda>item. item_name item \<noteq> None) items
          then Some (map (\<lambda>item. the (item_name item)) items)
          else fallback_names componentsText
      | Some _ \<Rightarrow> Some [])"

text \<open>Lines 199-229: the loop over the names pushes an entry for each string and stops with
  a \<^verbatim>\<open>TypeError\<close> at the first name that is none; the entries pushed before stay.\<close>

fun pushed_components :: "json list \<Rightarrow> ComponentInfo list" where
  "pushed_components [] = []"
| "pushed_components (JStr nm # rest) = component_of_name nm # pushed_components rest"
| "pushed_components (v # rest) = []"

text \<open>Lines 173-235: the entries one page adds to the catalog. The block catches its own
  errors.\<close>

definition parse_page :: "env \<Rightarrow> envelope \<Rightarrow> ComponentInfo list" where
  "parse_page ev extractResult =
     (case message extractResult of
        None \<Rightarrow> []
      | Some m \<Rightarrow>
          (case match_braces m of
             None \<Rightarrow> []
           | Some j \<Rightarrow>
               (case json_parse ev j of
                  None \<Rightarrow> []
                | Some extractedData \<Rightarrow>
                    (case get_prop extractedData ''components'' of
                       None \<Rightarrow> []
                     | Some componentsText \<Rightarrow>
                         (case component_names ev componentsText of
                            None \<Rightarrow> []
                          | Some names \<Rightarrow> pushed_components names)))))"

text \<open>The loop of lines 161-248; \<open>comps\<close> is \<^verbatim>\<open>catalog.components\<close>. An error of the
  extraction or of the click on the next page is logged and the loop goes on with the next
  page.\<close>

function page_loop :: "env \<Rightarrow> int \<Rightarrow> int \<Rightarrow> ComponentInfo list \<Rightarrow> ComponentInfo list proc" where
  "page_loop ev maxPages page comps s =
     (if page \<le> maxPages then
        (case browserCommand ev components_command s of
           (Throw e, s1) \<Rightarrow> page_loop ev maxPages (page + 1) comps s1
         | (Exit n, s1) \<Rightarrow> (Exit n, s1)
         | (Return extractResult, s1) \<Rightarrow>
             if page < maxPages then
               (case bind (browserCommand ev next_page_command) (\<lambda>_. delay DELAY_MS) s1 of
                  (Throw e, s2) \<Rightarrow>
                    page_loop ev maxPages (page + 1) (comps @ parse_page ev extractResult) s2
                | (Exit n, s2) \<Rightarrow> (Exit n, s2)
                | (Return _, s2) \<Rightarrow>
                    page_loop ev maxPages (page + 1) (comps @ parse_page ev extractResult) s2)
             else page_loop ev maxPages (page + 1) (comps @ parse_page ev extractResult) s1)
      else (Return comps, s))"
  by pat_completeness auto
termination
  by (relation "measure (\<lambda>(ev, maxPages, page, comps, s). nat (maxPages + 1 - page))") auto

declare page_loop.simps [simp del]

definition discoverComponents :: "env \<Rightarrow> int \<Rightarrow> Catalog proc" where
  "discoverComponents ev maxPages s =
     bind (browserCommand ev (navigate_command LISTING_URL)) (\<lambda>_.
     bind (delay 3000) (\<lambda>_.
     bind (browserCommand ev categories_command) (\<lambda>categoriesResult.
     bind (page_loop ev maxPages 1 []) (\<lambda>comps.
     bind (saveCatalog ev
             \<lparr>totalComponents = length comps, discoveredAt = clock ev (trace s), components = comps\<rparr>) (\<lambda>_.
     ret \<lparr>totalComponents = length comps, discoveredAt = clock ev (trace s), components = comps\<rparr>))))) s"

section \<open>Phase 2: download\<close>

definition react_tab_command :: string where
  "react_tab_command = ''browser act \"click the React tab\"''"

definition code_command :: string where
  "code_command =
     ''browser extract \"get the text content from the code block element - the complete source code shown in the pre or code element\" ''
     @ [CHR 0x27] @ ''{\"code\": \"string\"}'' @ [CHR 0x27]"

definition metadata_command :: string where
  "metadata_command =
     ''browser extract \"get category, last updated date, react version, and tailwind version from the Details panel\" ''
     @ [CHR 0x27]
     @ ''{\"category\": \"string\", \"lastUpdated\": \"string\", \"reactVersion\": \"string\", \"tailwindVersion\": \"string\"}''
     @ [CHR 0x27]"

definition image_tab_command :: string where
  "image_tab_command = ''browser act \"click the Image tab\"''"

definition screenshot_command :: string where
  "screenshot_command = ''browser screenshot''"

definition close_command :: string where
  "close_command = ''browser close''"

definition component_url :: "ComponentInfo \<Rightarrow> string" where
  "component_url component = page_url (slug component)"

text \<open>\<^verbatim>\<open>JSON.parse(result.message.match(/\{.*\}/s)[0])\<close> with the error thrown when there is
  no match: the embedded object of an extraction result.\<close>

definition embedded_json :: "env \<Rightarrow> string \<Rightarrow> envelope \<Rightarrow> json proc" where
  "embedded_json ev complaint result =
     (case message result of
        None \<Rightarrow> throw ''TypeError: Cannot read properties of undefined''
      | Some m \<Rightarrow>
          (case match_braces m of
             None \<Rightarrow> throw complaint
           | Some j \<Rightarrow>
               (case json_parse ev j of
                  None \<Rightarrow> throw ''SyntaxError''
                | Some v \<Rightarrow> ret v)))"

text \<open>Lines 279-315: what is fetched from the page of a component: the code, the metadata
  and the path of the screenshot.\<close>

definition retrieve :: "env \<Rightarrow> ComponentInfo \<Rightarrow> (json option \<times> json \<times> string option) proc" where
  "retrieve ev component =
     bind (browserCommand ev (navigate_command (component_url component))) (\<lambda>_.
     bind (delay 2000) (\<lambda>_.
     bind (browserCommand ev react_tab_command) (\<lambda>_.
     bind (delay 3000) (\<lambda>_.
     bind (browserCommand ev code_command) (\<lambda>codeResult.
     bind (embedded_json ev ''No code JSON found'' codeResult) (\<lambda>codeObject.
     bind (case get_prop codeObject ''code'' of
             None \<Rightarrow> throw ''TypeError: Cannot read properties of null''
           | Some code \<Rightarrow> ret code) (\<lambda>code.
     bind (browserCommand ev metadata_command) (\<lambda>metadataResult.
     bind (embedded_json ev ''No metadata JSON found'' metadataResult) (\<lambda>metadata.
     bind (browserCommand ev image_tab_command) (\<lambda>_.
     bind (delay 1000) (\<lambda>_.
     bind (browserCommand ev screenshot_command) (\<lambda>screenshotResult.
     ret (code, metadata, screenshot screenshotResult)))))))))))))"

definition categoryDir :: "ComponentInfo \<Rightarrow> string" where
  "categoryDir component =
     path_join [COMPONENTS_DIR,
                sanitizeFilename (toLowerCase (category component)),
                sanitizeFilename (toLowerCase (subcategory component))]"

definition componentPath :: "ComponentInfo \<Rightarrow> string" where
  "componentPath component =
     path_join [categoryDir component, toPascalCase (slug component) @ ''.tsx'']"

definition imagePath :: "ComponentInfo \<Rightarrow> string" where
  "imagePath component =
     path_join [categoryDir component, toPascalCase (slug component) @ ''.png'']"

text \<open>\<^verbatim>\<open>${metadata.k || fallback}\<close> for a metadata value that is not \<^verbatim>\<open>null\<close>.\<close>

definition field_or :: "json \<Rightarrow> string \<Rightarrow> string \<Rightarrow> string" where
  "field_or metadata k fallback =
     (case get_prop metadata k of
        Some (Some v) \<Rightarrow> if truthy (Some v) then js_string v else fallback
      | _ \<Rightarrow> fallback)"

definition metadataHeader :: "ComponentInfo \<Rightarrow> json \<Rightarrow> string" where
  "metadataHeader component metadata =
     ''/**'' @ [CHR 0x0A]
     @ '' * '' @ name component @ [CHR 0x0A]
     @ '' * @source '' @ component_url component @ [CHR 0x0A]
     @ '' * @category '' @ field_or metadata ''category'' (category component) @ [CHR 0x0A]
     @ '' * @subcategory '' @ subcategory component @ [CHR 0x0A]
     @ '' * @react '' @ field_or metadata ''reactVersion'' ''Unknown'' @ [CHR 0x0A]
     @ '' * @tailwind '' @ field_or metadata ''tailwindVersion'' ''Unknown'' @ [CHR 0x0A]
     @ '' * @updated '' @ field_or metadata ''lastUpdated'' ''Unknown'' @ [CHR 0x0A]
     @ '' */'' @ [CHR 0x0A] @ [CHR 0x0A]"

text \<open>Lines 317-340: the directory is made and the source file written. Reading a property
  of a \<^verbatim>\<open>null\<close> metadata value is a \<^verbatim>\<open>TypeError\<close>.\<close>

definition saveComponentFile :: "env \<Rightarrow> ComponentInfo \<Rightarrow> json option \<Rightarrow> json \<Rightarrow> unit proc" where
  "saveComponentFile ev component code metadata =
     bind (ensureDir ev (categoryDir component)) (\<lambda>_.
     if metadata = JNull then throw ''TypeError: Cannot read properties of null''
     else writeFile ev (componentPath component)
            (metadataHeader component metadata @ js_string_opt code))"

text \<open>Lines 279-345: the steps of one item up to the copy of the screenshot.\<close>

definition fetchItem :: "env \<Rightarrow> ComponentInfo \<Rightarrow> unit proc" where
  "fetchItem ev component =
     bind (retrieve ev component) (\<lambda>(code, metadata, screenshotPath).
     bind (saveComponentFile ev component code metadata) (\<lambda>_.
     copyFile ev screenshotPath (imagePath component)))"

text \<open>The handler of lines 357-361.\<close>

definition onFailure :: "env \<Rightarrow> ComponentInfo \<Rightarrow> Progress \<Rightarrow> Progress proc" where
  "onFailure ev component progress =
     saveProgress ev (progress\<lparr>failed := failed progress @ [slug component]\<rparr>)"

text \<open>The \<^verbatim>\<open>try\<close> block of lines 278-356, on the item at index \<open>i\<close>: the steps of the item,
  the push of its slug to \<open>completed\<close>, the save, and the wait before the next item. The
  progress record is one object, changed in place; beside its outcome the block gives the
  record as it leaves it, which is what its handler continues on. When the save of line 349
  throws, that is the record with the slug pushed and with the new stamp.\<close>

definition tryBlock ::
  "env \<Rightarrow> ComponentInfo list \<Rightarrow> nat \<Rightarrow> Progress \<Rightarrow> state \<Rightarrow> (unit outcome \<times> Progress) \<times> state" where
  "tryBlock ev remaining i progress s =
     (case fetchItem ev (remaining ! i) s of
        (Throw e, s1) \<Rightarrow> ((Throw e, progress), s1)
      | (Exit n, s1) \<Rightarrow> ((Exit n, progress), s1)
      | (Return _, s1) \<Rightarrow>
          (case saveProgress ev (progress\<lparr>completed := completed progress @ [slug (remaining ! i)]\<rparr>) s1 of
             (Throw e, s2) \<Rightarrow>
               ((Throw e,
                 stamp ev (progress\<lparr>completed := completed progress @ [slug (remaining ! i)]\<rparr>) s1), s2)
           | (Exit n, s2) \<Rightarrow>
               ((Exit n,
                 stamp ev (progress\<lparr>completed := completed progress @ [slug (remaining ! i)]\<rparr>) s1), s2)
           | (Return saved, s2) \<Rightarrow>
               if i < length remaining - 1
               then (case delay DELAY_MS s2 of (_, s3) \<Rightarrow> ((Return (), saved), s3))
               else ((Return (), saved), s2)))"

text \<open>One iteration of the loop of lines 274-362: the block, and its handler when the block
  throws.\<close>

definition processItem :: "env \<Rightarrow> ComponentInfo list \<Rightarrow> nat \<Rightarrow> Progress \<Rightarrow> Progress proc" where
  "processItem ev remaining i progress s =
     (case tryBlock ev remaining i progress s of
        ((Return _, progress'), s') \<Rightarrow> (Return progress', s')
      | ((Throw e, progress'), s') \<Rightarrow> onFailure ev (remaining ! i) progress' s'
      | ((Exit n, progress'), s') \<Rightarrow> (Exit n, s'))"

function downloadLoop :: "env \<Rightarrow> ComponentInfo list \<Rightarrow> nat \<Rightarrow> Progress \<Rightarrow> Progress proc" where
  "downloadLoop ev remaining i progress s =
     (if i < length remaining then
        (case processItem ev remaining i progress s of
           (Return progress', s') \<Rightarrow> downloadLoop ev remaining (i + 1) progress' s'
         | (Throw e, s') \<Rightarrow> (Throw e, s')
         | (Exit n, s') \<Rightarrow> (Exit n, s'))
      else (Return progress, s))"
  by pat_completeness auto
termination
  by (relation "measure (\<lambda>(ev, remaining, i, progress, s). length remaining - i)") auto

declare downloadLoop.simps [simp del]

text \<open>Lines 265-362: the progress record is loaded, the work set computed from it, and the
  loop run; the result is the record whose counts lines 365-366 print.\<close>

definition downloadRun :: "env \<Rightarrow> Catalog \<Rightarrow> Progress proc" where
  "downloadRun ev catalog =
     bind (loadProgress ev) (\<lambda>progress.
     downloadLoop ev (remaining_of catalog progress) 0 progress)"

definition downloadComponents :: "env \<Rightarrow> Catalog \<Rightarrow> unit proc" where
  "downloadComponents ev catalog = bind (downloadRun ev catalog) (\<lambda>_. ret ())"

section \<open>The entry point\<close>

text \<open>\<^verbatim>\<open>parseInt(args[1]) || 32\<close>\<close>

definition max_pages_arg :: "env \<Rightarrow> string list \<Rightarrow> int" where
  "max_pages_arg ev args =
     (case args of
        _ # a # _ \<Rightarrow>
          (case parse_int ev a of
             None \<Rightarrow> 32
           | Some n \<Rightarrow> if n = 0 then 32 else n)
      | _ \<Rightarrow> 32)"

text \<open>The \<^verbatim>\<open>switch\<close> of lines 377-412.\<close>

definition dispatch :: "env \<Rightarrow> string list \<Rightarrow> unit proc" where
  "dispatch ev args =
     (if take 1 args = [''discover''] then
        bind (discoverComponents ev (max_pages_arg ev args)) (\<lambda>_. ret ())
      else if take 1 args = [''download''] then
        bind (loadCatalog ev) (\<lambda>catalog.
          if length (components catalog) = 0
          then bind (console NoComponents) (\<lambda>_. process_exit 1)
          else downloadComponents ev catalog)
      else if take 1 args = [''all''] then
        bind (discoverComponents ev 32) (\<lambda>discoveredCatalog.
          downloadComponents ev discoveredCatalog)
      else bind (console Usage) (\<lambda>_. process_exit 1))"

text \<open>\<^verbatim>\<open>main\<close>, lines 372-425; \<open>args\<close> is \<^verbatim>\<open>process.argv.slice(2)\<close>. A run that returns ends
  with status 0.\<close>

definition main :: "env \<Rightarrow> string list \<Rightarrow> unit proc" where
  "main ev args =
     try_catch
       (bind (dispatch ev args) (\<lambda>_.
        bind (browserCommand ev close_command) (\<lambda>_.
        console AllDone)))
       (\<lambda>e.
        bind (console (FatalError e)) (\<lambda>_.
        bind (try_catch (bind (browserCommand ev close_command) (\<lambda>_. ret ())) (\<lambda>_. ret ())) (\<lambda>_.
        process_exit 1)))"

definition exit_status :: "'a outcome \<Rightarrow> nat" where
  "exit_status r = (case r of Return _ \<Rightarrow> 0 | Throw _ \<Rightarrow> 1 | Exit n \<Rightarrow> n)"

section \<open>Notions used in the statements\<close>

text \<open>A procedure without \<^verbatim>\<open>process.exit\<close>.\<close>

definition no_exit :: "'a proc \<Rightarrow> bool" where
  "no_exit m = (\<forall>s n s'. m s \<noteq> (Exit n, s'))"

text \<open>A capitalized word: a capital letter, then small letters.\<close>

definition capitalized :: "string \<Rightarrow> bool" where
  "capitalized w = (case w of [] \<Rightarrow> False | c # cs \<Rightarrow> is_upper c \<and> list_all is_lower cs)"

text \<open>Words, each followed by its white space, written one after the other.\<close>

definition gapped :: "(string \<times> string) list \<Rightarrow> string" where
  "gapped parts = concat (map (\<lambda>(w, sp). w @ sp) parts)"

text \<open>The value of an outcome that returned.\<close>

definition returned :: "'a outcome \<Rightarrow> 'a option" where
  "returned r = (case r of Return x \<Rightarrow> Some x | _ \<Rightarrow> None)"

section \<open>Sample environments\<close>

text \<open>An environment for concrete runs. The tool answers every command, except that it
  refuses to navigate to the pages of the slugs in \<open>broken\<close>; the code and the metadata it
  extracts are the same on every page; its screenshot is the file \<^verbatim>\<open>/tmp/shot.png\<close>; no file
  operation is refused; there is no catalog and no progress document from an earlier run.\<close>

definition ok_reply :: envelope where
  "ok_reply = \<lparr>success = True, message = None, error = None, screenshot = None\<rparr>"

definition sample_json :: "string \<Rightarrow> json option" where
  "sample_json t =
     (if t = ''{\"code\": \"export default function Navbar1(){}\"}''
      then Some (JObj [(''code'', JStr ''export default function Navbar1(){}'')])
      else if t = ''{\"reactVersion\": \"18\", \"tailwindVersion\": \"3\", \"lastUpdated\": \"2024-01-01\"}''
      then Some (JObj [(''reactVersion'', JStr ''18''), (''tailwindVersion'', JStr ''3''),
                       (''lastUpdated'', JStr ''2024-01-01'')])
      else None)"

definition sample_respond :: "string list \<Rightarrow> string \<Rightarrow> answer" where
  "sample_respond broken command =
     (if command \<in> set (map (\<lambda>sl. navigate_command (page_url sl)) broken)
      then Answer (ok_reply\<lparr>success := False, error := Some ''AccessDenied''\<rparr>)
      else if command = code_command
      then Answer (ok_reply\<lparr>message :=
             Some ''Successfully extracted data: {\"code\": \"export default function Navbar1(){}\"}''\<rparr>)
      else if command = metadata_command
      then Answer (ok_reply\<lparr>message :=
             Some ''Successfully extracted data: {\"reactVersion\": \"18\", \"tailwindVersion\": \"3\", \"lastUpdated\": \"2024-01-01\"}''\<rparr>)
      else if command = screenshot_command
      then Answer (ok_reply\<lparr>screenshot := Some ''/tmp/shot.png''\<rparr>)
      else Answer ok_reply)"

definition sample_progress_show :: "Progress \<Rightarrow> string" where
  "sample_progress_show p =
     ''completed: '' @ join_with '','' (completed p) @ ''; failed: '' @ join_with '','' (failed p)"

definition sample_env :: "string list \<Rightarrow> env" where
  "sample_env broken =
     \<lparr>respond = (\<lambda>h. sample_respond broken),
      fs_fault = (\<lambda>h e. None),
      outside = (\<lambda>h p. if p = ''/tmp/shot.png'' then Some ''PNG'' else None),
      clock = (\<lambda>h. ''2024-01-01T00:00:00.000Z''),
      json_parse = sample_json,
      catalog_parse = (\<lambda>t. None),
      catalog_show = (\<lambda>c. join_with '','' (map slug (components c))),
      progress_parse = (\<lambda>t. None),
      progress_show = sample_progress_show,
      parse_int = (\<lambda>t. if t = ''2'' then Some 2 else None)\<rparr>"

text \<open>An environment in which the automation tool cannot be started. The catalog document
  lists one component and the progress document records it as completed.\<close>

definition offline_env :: env where
  "offline_env =
     \<lparr>respond = (\<lambda>h command. Crash ''browser: command not found''),
      fs_fault = (\<lambda>h e. None),
      outside = (\<lambda>h p. Some ''{}''),
      clock = (\<lambda>h. ''2024-01-01T00:00:00.000Z''),
      json_parse = (\<lambda>t. None),
      catalog_parse = (\<lambda>t. Some \<lparr>totalComponents = 1, discoveredAt = ''2024-01-01T00:00:00.000Z'',
                                  components = [component_of_name ''Navbar 1'']\<rparr>),
      catalog_show = (\<lambda>c. ''{}''),
      progress_parse = (\<lambda>t. Some \<lparr>completed = [''navbar-1''], failed = [],
                                   lastUpdated = ''2024-01-01T00:00:00.000Z''\<rparr>),
      progress_show = (\<lambda>p. ''{}''),
      parse_int = (\<lambda>t. None)\<rparr>"

definition empty_disk :: state where
  "empty_disk = \<lparr>trace = [], files = (\<lambda>p. None)\<rparr>"

definition sample_catalog :: "string list \<Rightarrow> Catalog" where
  "sample_catalog names =
     \<lparr>totalComponents = length names,
      discoveredAt = ''2024-01-01T00:00:00.000Z'',
      components = map component_of_name names\<rparr>"

text \<open>The sample environment with a disk that refuses the first write of the progress
  document, and only that one: a write of the document is refused as long as the history
  of the run has no earlier attempt to write it.\<close>

definition progress_written :: "event list \<Rightarrow> bool" where
  "progress_written h =
     list_ex (\<lambda>x. case x of WriteFile p d \<Rightarrow> p = PROGRESS_FILE | _ \<Rightarrow> False) h"

definition flaky_env :: "string list \<Rightarrow> env" where
  "flaky_env broken =
     (sample_env broken)
       \<lparr>fs_fault := (\<lambda>h e. case e of
                             WriteFile p d \<Rightarrow>
                               if p = PROGRESS_FILE \<and> \<not> progress_written h then Some ''EIO''
                               else None
                           | _ \<Rightarrow> None)\<rparr>"

section \<open>Properties of the naming utilities\<close>

lemmas char_defs = is_upper_def is_lower_def is_digit_def is_space_def upper_letters_def
  lower_letters_def digit_chars_def lower_char_def upper_char_def latin_upper_def
  latin_lower_def

lemma slug_navbar [simp]:
  "nameToSlug ''Navbar 1'' = ''navbar-1''"
  "nameToSlug ''Navbar 2'' = ''navbar-2''"
  "nameToSlug ''Navbar 3'' = ''navbar-3''"
  by (simp_all add: nameToSlug_def toLowerCase_def char_defs)

lemma slug_component_of_name [simp]: "slug (component_of_name nm) = nameToSlug nm"
  by (simp add: component_of_name_def)

lemma components_sample_catalog [simp]:
  "components (sample_catalog names) = map component_of_name names"
  by (simp add: sample_catalog_def)

lemma filename_class:
  "''ABCDEFGHIJKLMNOPQRSTUVWXYZabcdefghijklmnopqrstuvwxyz0123456789-'' =
     upper_letters @ lower_letters @ digit_chars @ ''-''"
  by (simp add: upper_letters_def lower_letters_def digit_chars_def)

lemma filename_char_iff:
  "filename_char c \<longleftrightarrow>
     c \<in> set ''ABCDEFGHIJKLMNOPQRSTUVWXYZabcdefghijklmnopqrstuvwxyz0123456789-''"
  unfolding filename_class filename_char_def is_lower_def is_upper_def is_digit_def
  by auto

text \<open>
  Claim C7. The path-segment sanitizer is a total function; sanitizing twice gives the same
  as sanitizing once, and every character of the result is one of the letters \<^verbatim>\<open>A-Z\<close> and
  \<^verbatim>\<open>a-z\<close>, a digit or the hyphen.
\<close>

theorem sanitizeFilename_idempotent_and_clean:
  "sanitizeFilename (sanitizeFilename x) = sanitizeFilename x \<and>
   (\<forall>c \<in> set (sanitizeFilename x).
      c \<in> set ''ABCDEFGHIJKLMNOPQRSTUVWXYZabcdefghijklmnopqrstuvwxyz0123456789-'')"
proof
  show "sanitizeFilename (sanitizeFilename x) = sanitizeFilename x"
    by (simp add: sanitizeFilename_def)
  show "\<forall>c \<in> set (sanitizeFilename x).
      c \<in> set ''ABCDEFGHIJKLMNOPQRSTUVWXYZabcdefghijklmnopqrstuvwxyz0123456789-''"
    unfolding sanitizeFilename_def using filename_char_iff by auto
qed

theorem sanitizeFilename_witness:
  "sanitizeFilename ''Application UI / v2.0'' = ''ApplicationUIv20'' \<and>
   sanitizeFilename (sanitizeFilename ''Application UI / v2.0'') = ''ApplicationUIv20'' \<and>
   CHR ''v'' \<in> set (sanitizeFilename ''Application UI / v2.0'') \<and>
   CHR ''v'' \<in> set ''ABCDEFGHIJKLMNOPQRSTUVWXYZabcdefghijklmnopqrstuvwxyz0123456789-''"
proof -
  have e: "sanitizeFilename ''Application UI / v2.0'' = ''ApplicationUIv20''"
    by (simp add: sanitizeFilename_def filename_char_def is_lower_def is_upper_def is_digit_def
          upper_letters_def lower_letters_def digit_chars_def)
  show ?thesis
    using sanitizeFilename_idempotent_and_clean [of "''Application UI / v2.0''"]
    unfolding e by simp
qed

section \<open>The work set\<close>

lemma length_filter_complement:
  "length (filter (\<lambda>x. \<not> P x) xs) = length xs - length (filter P xs)"
  using sum_length_filter_compl [of P xs] by simp

lemma length_filter_distinct_card:
  assumes "distinct (map f xs)"
  shows "length (filter (\<lambda>x. f x \<in> A) xs) = card (f ` set xs \<inter> A)"
proof -
  have inj: "inj_on f (set xs)" and d: "distinct xs"
    using assms by (simp_all add: distinct_map)
  have "length (filter (\<lambda>x. f x \<in> A) xs) = card (set (filter (\<lambda>x. f x \<in> A) xs))"
    by (rule distinct_card [symmetric]) (simp add: d)
  also have "set (filter (\<lambda>x. f x \<in> A) xs) = {x \<in> set xs. f x \<in> A}" by simp
  also have "card {x \<in> set xs. f x \<in> A} = card (f ` {x \<in> set xs. f x \<in> A})"
    by (rule card_image [symmetric]) (rule inj_on_subset [OF inj], auto)
  also have "f ` {x \<in> set xs. f x \<in> A} = f ` set xs \<inter> A" by auto
  finally show ?thesis .
qed

lemma remaining_of_filter:
  "remaining_of catalog progress =
     filter (\<lambda>c. \<not> (slug c \<in> set (completed progress) \<union> set (failed progress)))
       (components catalog)"
  by (simp add: remaining_of_def array_includes_def)

lemma loadProgress_returns:
  "\<exists>p. loadProgress ev s = (Return p, emit (ReadFile PROGRESS_FILE) s)"
  by (auto simp: loadProgress_def try_catch_def bind_def readFile_def ret_def throw_def emit_def
           split: option.splits)

lemma loadCatalog_returns:
  "\<exists>c. loadCatalog ev s = (Return c, emit (ReadFile CATALOG_FILE) s)"
  by (auto simp: loadCatalog_def try_catch_def bind_def readFile_def ret_def throw_def emit_def
           split: option.splits)

text \<open>
  Claim C1 fails for a catalog in which a slug occurs twice. The catalog has two entries
  with the slug \<^verbatim>\<open>navbar-1\<close>, which is in \<open>completed\<close>: the work set is empty, and the number
  of entries minus the number of slugs of the catalog that are in the lists is 1.
\<close>

theorem work_set_length_counterexample:
  "length (remaining_of (sample_catalog [''Navbar 1'', ''Navbar 1''])
             \<lparr>completed = [''navbar-1''], failed = [], lastUpdated = []\<rparr>) = 0 \<and>
   length (components (sample_catalog [''Navbar 1'', ''Navbar 1''])) -
     card (slug ` set (components (sample_catalog [''Navbar 1'', ''Navbar 1''])) \<inter>
           (set [''navbar-1''] \<union> set [])) = 1"
  by (simp add: remaining_of_def array_includes_def)

text \<open>
  Claim C1, amended. A download run loads the progress record and runs its loop on the work
  set computed from it. The work set is the catalog entries whose slug is neither in
  \<open>completed\<close> nor in \<open>failed\<close>, in catalog order. Its length is the number of catalog
  entries minus the number of those entries whose slug is in one of the two lists; when no
  two entries share a slug, that is the number of slugs of the catalog that are in the
  lists. No entry of the work set has its slug in one of the lists.
\<close>

theorem remaining_of_work_set:
  "(\<exists>loaded s1. loadProgress ev s = (Return loaded, s1) \<and>
       downloadRun ev catalog s = downloadLoop ev (remaining_of catalog loaded) 0 loaded s1) \<and>
   remaining_of catalog progress =
     filter (\<lambda>c. slug c \<notin> set (completed progress) \<and> slug c \<notin> set (failed progress))
       (components catalog) \<and>
   subseq (remaining_of catalog progress) (components catalog) \<and>
   length (remaining_of catalog progress) =
     length (components catalog) -
     length (filter (\<lambda>c. slug c \<in> set (completed progress) \<union> set (failed progress))
               (components catalog)) \<and>
   (distinct (map slug (components catalog)) \<longrightarrow>
      length (remaining_of catalog progress) =
        length (components catalog) -
        card (slug ` set (components catalog) \<inter> (set (completed progress) \<union> set (failed progress)))) \<and>
   (\<forall>c \<in> set (remaining_of catalog progress).
      slug c \<notin> set (completed progress) \<and> slug c \<notin> set (failed progress))"
proof (intro conjI)
  show "\<exists>loaded s1. loadProgress ev s = (Return loaded, s1) \<and>
       downloadRun ev catalog s = downloadLoop ev (remaining_of catalog loaded) 0 loaded s1"
    using loadProgress_returns [of ev s] by (auto simp: downloadRun_def bind_def)
  show "remaining_of catalog progress =
     filter (\<lambda>c. slug c \<notin> set (completed progress) \<and> slug c \<notin> set (failed progress))
       (components catalog)"
    by (simp add: remaining_of_filter)
  show "subseq (remaining_of catalog progress) (components catalog)"
    by (simp add: remaining_of_def)
  show len: "length (remaining_of catalog progress) =
     length (components catalog) -
     length (filter (\<lambda>c. slug c \<in> set (completed progress) \<union> set (failed progress))
               (components catalog))"
    unfolding remaining_of_filter by (rule length_filter_complement)
  show "distinct (map slug (components catalog)) \<longrightarrow>
      length (remaining_of catalog progress) =
        length (components catalog) -
        card (slug ` set (components catalog) \<inter> (set (completed progress) \<union> set (failed progress)))"
  proof
    assume d: "distinct (map slug (components catalog))"
    show "length (remaining_of catalog progress) =
        length (components catalog) -
        card (slug ` set (components catalog) \<inter> (set (completed progress) \<union> set (failed progress)))"
      unfolding len length_filter_distinct_card [OF d] by (rule refl)
  qed
  show "\<forall>c \<in> set (remaining_of catalog progress).
      slug c \<notin> set (completed progress) \<and> slug c \<notin> set (failed progress)"
    by (simp add: remaining_of_filter)
qed

theorem remaining_of_work_set_witness:
  "distinct (map slug (components (sample_catalog [''Navbar 1'', ''Navbar 2'', ''Navbar 3'']))) \<and>
   component_of_name ''Navbar 2'' \<in>
     set (remaining_of (sample_catalog [''Navbar 1'', ''Navbar 2'', ''Navbar 3''])
            \<lparr>completed = [''navbar-1''], failed = [''navbar-3''], lastUpdated = []\<rparr>) \<and>
   remaining_of (sample_catalog [''Navbar 1'', ''Navbar 2'', ''Navbar 3''])
     \<lparr>completed = [''navbar-1''], failed = [''navbar-3''], lastUpdated = []\<rparr> =
     [component_of_name ''Navbar 2''] \<and>
   length (remaining_of (sample_catalog [''Navbar 1'', ''Navbar 2'', ''Navbar 3''])
            \<lparr>completed = [''navbar-1''], failed = [''navbar-3''], lastUpdated = []\<rparr>) =
     3 - card (slug ` set (components (sample_catalog [''Navbar 1'', ''Navbar 2'', ''Navbar 3'']))
                 \<inter> (set [''navbar-1''] \<union> set [''navbar-3'']))"
  using remaining_of_work_set
    [of "sample_env []" empty_disk "sample_catalog [''Navbar 1'', ''Navbar 2'', ''Navbar 3'']"
        "\<lparr>completed = [''navbar-1''], failed = [''navbar-3''], lastUpdated = []\<rparr>"]
  by simp

section \<open>Loading the documents\<close>

lemma readFile_absent:
  "fs_fault ev (trace s) (ReadFile p) = None \<Longrightarrow> disk ev s p = None \<Longrightarrow>
   readFile ev p s = (Throw ''ENOENT: no such file or directory'', emit (ReadFile p) s)"
  by (simp add: readFile_def)

lemma readFile_cases:
  "(\<exists>e. readFile ev p s = (Throw e, emit (ReadFile p) s)) \<or>
   (\<exists>d. readFile ev p s = (Return d, emit (ReadFile p) s) \<and> disk ev s p = Some d)"
  by (auto simp: readFile_def split: option.splits)

text \<open>
  Claim C8. \<^verbatim>\<open>loadCatalog\<close> and \<^verbatim>\<open>loadProgress\<close> always return. When the document does not
  exist, cannot be read or cannot be parsed, \<^verbatim>\<open>loadCatalog\<close> returns a fresh catalog with
  \<open>totalComponents\<close> 0 and no components, and \<^verbatim>\<open>loadProgress\<close> a fresh record with empty
  \<open>completed\<close> and \<open>failed\<close> lists.
\<close>

theorem load_never_fails:
  "(\<exists>c s1. loadCatalog ev s = (Return c, s1) \<and>
      ((disk ev s CATALOG_FILE = None \<or>
        (\<exists>e s2. readFile ev CATALOG_FILE s = (Throw e, s2)) \<or>
        (\<exists>d s2. readFile ev CATALOG_FILE s = (Return d, s2) \<and> catalog_parse ev d = None))
       \<longrightarrow> c = fresh_catalog (clock ev (trace s1)) \<and>
           totalComponents c = 0 \<and> components c = [])) \<and>
   (\<exists>p s1. loadProgress ev s = (Return p, s1) \<and>
      ((disk ev s PROGRESS_FILE = None \<or>
        (\<exists>e s2. readFile ev PROGRESS_FILE s = (Throw e, s2)) \<or>
        (\<exists>d s2. readFile ev PROGRESS_FILE s = (Return d, s2) \<and> progress_parse ev d = None))
       \<longrightarrow> p = fresh_progress (clock ev (trace s1)) \<and>
           completed p = [] \<and> failed p = []))"
proof (intro conjI)
  show "\<exists>c s1. loadCatalog ev s = (Return c, s1) \<and>
      ((disk ev s CATALOG_FILE = None \<or>
        (\<exists>e s2. readFile ev CATALOG_FILE s = (Throw e, s2)) \<or>
        (\<exists>d s2. readFile ev CATALOG_FILE s = (Return d, s2) \<and> catalog_parse ev d = None))
       \<longrightarrow> c = fresh_catalog (clock ev (trace s1)) \<and>
           totalComponents c = 0 \<and> components c = [])"
    using readFile_cases [of ev CATALOG_FILE s]
    by (auto simp: loadCatalog_def try_catch_def bind_def throw_def ret_def fresh_catalog_def
             split: option.splits)
  show "\<exists>p s1. loadProgress ev s = (Return p, s1) \<and>
      ((disk ev s PROGRESS_FILE = None \<or>
        (\<exists>e s2. readFile ev PROGRESS_FILE s = (Throw e, s2)) \<or>
        (\<exists>d s2. readFile ev PROGRESS_FILE s = (Return d, s2) \<and> progress_parse ev d = None))
       \<longrightarrow> p = fresh_progress (clock ev (trace s1)) \<and>
           completed p = [] \<and> failed p = [])"
    using readFile_cases [of ev PROGRESS_FILE s]
    by (auto simp: loadProgress_def try_catch_def bind_def throw_def ret_def fresh_progress_def
             split: option.splits)
qed

lemma sample_env_simps [simp]:
  "respond (sample_env broken) = (\<lambda>h. sample_respond broken)"
  "fs_fault (sample_env broken) h e = None"
  "outside (sample_env broken) h p = (if p = ''/tmp/shot.png'' then Some ''PNG'' else None)"
  "clock (sample_env broken) h = ''2024-01-01T00:00:00.000Z''"
  "json_parse (sample_env broken) = sample_json"
  "catalog_parse (sample_env broken) t = None"
  "progress_parse (sample_env broken) t = None"
  "progress_show (sample_env broken) = sample_progress_show"
  "catalog_show (sample_env broken) c = join_with '','' (map slug (components c))"
  by (simp_all add: sample_env_def)

lemma empty_disk_simps [simp]:
  "trace empty_disk = []" "files empty_disk p = None"
  by (simp_all add: empty_disk_def)

theorem load_never_fails_witness:
  "disk (sample_env []) empty_disk CATALOG_FILE = None \<and>
   disk (sample_env []) empty_disk PROGRESS_FILE = None \<and>
   fst (loadCatalog (sample_env []) empty_disk) =
     Return \<lparr>totalComponents = 0, discoveredAt = ''2024-01-01T00:00:00.000Z'', components = []\<rparr> \<and>
   fst (loadProgress (sample_env []) empty_disk) =
     Return \<lparr>completed = [], failed = [], lastUpdated = ''2024-01-01T00:00:00.000Z''\<rparr>"
  using load_never_fails [of "sample_env []" empty_disk]
  by (auto simp: disk_def CATALOG_FILE_def PROGRESS_FILE_def fresh_catalog_def fresh_progress_def)

section \<open>The download loop\<close>

lemma no_exit_ret [simp]: "no_exit (ret x)"
  by (simp add: no_exit_def ret_def)

lemma no_exit_throw [simp]: "no_exit (throw e)"
  by (simp add: no_exit_def throw_def)

lemma no_exit_bind: "no_exit m \<Longrightarrow> (\<And>x. no_exit (f x)) \<Longrightarrow> no_exit (bind m f)"
  by (auto simp: no_exit_def bind_def split: prod.splits outcome.splits)

lemma no_exit_browserCommand [simp]: "no_exit (browserCommand ev c)"
  by (simp add: no_exit_def browserCommand_def split: answer.splits)

lemma no_exit_delay [simp]: "no_exit (delay ms)"
  by (simp add: no_exit_def delay_def)

lemma no_exit_writeFile [simp]: "no_exit (writeFile ev p d)"
  by (simp add: no_exit_def writeFile_def split: option.splits)

lemma no_exit_copyFile [simp]: "no_exit (copyFile ev src dst)"
  by (simp add: no_exit_def copyFile_def split: option.splits)

lemma no_exit_ensureDir [simp]: "no_exit (ensureDir ev p)"
  by (simp add: no_exit_def ensureDir_def split: option.splits)

lemma no_exit_embedded_json [simp]: "no_exit (embedded_json ev complaint r)"
  by (simp add: embedded_json_def split: option.splits)

lemma no_exit_retrieve: "no_exit (retrieve ev c)"
  unfolding retrieve_def
  by (intro no_exit_bind no_exit_browserCommand no_exit_delay no_exit_embedded_json no_exit_ret)
     (simp split: option.splits)

lemma no_exit_saveComponentFile: "no_exit (saveComponentFile ev c code md)"
  unfolding saveComponentFile_def
  by (intro no_exit_bind no_exit_ensureDir) simp

lemma no_exit_fetchItem: "no_exit (fetchItem ev c)"
  unfolding fetchItem_def
  by (intro no_exit_bind no_exit_retrieve) (auto intro!: no_exit_bind no_exit_saveComponentFile)

lemma fetchItem_cases:
  obtains (returns) s1 where "fetchItem ev c s = (Return (), s1)"
        | (throws) e s1 where "fetchItem ev c s = (Throw e, s1)"
proof (cases "fetchItem ev c s")
  case (Pair r s1)
  then show ?thesis using no_exit_fetchItem [of ev c] that
    by (cases r) (auto simp: no_exit_def)
qed

lemma saveProgress_persists:
  assumes "\<forall>h d. fs_fault ev h (WriteFile PROGRESS_FILE d) = None"
  shows "\<exists>s'. saveProgress ev p s = (Return (stamp ev p s), s') \<and>
           files s' PROGRESS_FILE = Some (progress_show ev (stamp ev p s))"
  using assms by (simp add: saveProgress_def bind_def writeFile_def ret_def)

lemma stamp_simps [simp]:
  "completed (stamp ev p s) = completed p" "failed (stamp ev p s) = failed p"
  by (simp_all add: stamp_def)

lemma delay_files [simp]: "delay ms s = (Return (), emit (Sleep ms) s)"
  by (simp add: delay_def)

lemma emit_simps [simp]: "files (emit e s) = files s" "trace (emit e s) = trace s @ [e]"
  by (simp_all add: emit_def)

lemma processItem_throws:
  assumes persist: "\<forall>h d. fs_fault ev h (WriteFile PROGRESS_FILE d) = None"
      and thr: "fetchItem ev (remaining ! i) s = (Throw e, s1)"
  shows "\<exists>p' s'. processItem ev remaining i p s = (Return p', s') \<and>
           completed p' = completed p \<and> failed p' = failed p @ [slug (remaining ! i)] \<and>
           files s' PROGRESS_FILE = Some (progress_show ev p')"
  using saveProgress_persists [OF persist, of "p\<lparr>failed := failed p @ [slug (remaining ! i)]\<rparr>" s1]
  by (auto simp: processItem_def tryBlock_def thr onFailure_def)

lemma processItem_returns:
  assumes persist: "\<forall>h d. fs_fault ev h (WriteFile PROGRESS_FILE d) = None"
      and rtn: "fetchItem ev (remaining ! i) s = (Return (), s1)"
  shows "\<exists>p' s'. processItem ev remaining i p s = (Return p', s') \<and>
           completed p' = completed p @ [slug (remaining ! i)] \<and> failed p' = failed p \<and>
           files s' PROGRESS_FILE = Some (progress_show ev p')"
  using saveProgress_persists [OF persist, of "p\<lparr>completed := completed p @ [slug (remaining ! i)]\<rparr>" s1]
  by (auto simp: processItem_def tryBlock_def rtn bind_def ret_def)

lemma downloadLoop_accounts:
  assumes persist: "\<forall>h d. fs_fault ev h (WriteFile PROGRESS_FILE d) = None"
      and det: "\<forall>c \<in> set remaining. \<forall>s. (\<exists>e s1. fetchItem ev c s = (Throw e, s1)) = bad c"
  shows "\<exists>p' s'. downloadLoop ev remaining i p s = (Return p', s') \<and>
           completed p' = completed p @ map slug (filter (\<lambda>c. \<not> bad c) (drop i remaining)) \<and>
           failed p' = failed p @ map slug (filter bad (drop i remaining)) \<and>
           (i < length remaining \<longrightarrow> files s' PROGRESS_FILE = Some (progress_show ev p'))"
proof (induction "length remaining - i" arbitrary: i p s)
  case 0
  then show ?case by (simp add: downloadLoop.simps)
next
  case (Suc k)
  then have i: "i < length remaining" and k: "k = length remaining - Suc i" by auto
  let ?c = "remaining ! i"
  have mem: "?c \<in> set remaining" using i by simp
  have dr: "drop i remaining = ?c # drop (Suc i) remaining"
    using i by (simp add: Cons_nth_drop_Suc)
  obtain p1 s1 where step: "processItem ev remaining i p s = (Return p1, s1)"
      and c1: "completed p1 = completed p @ (if bad ?c then [] else [slug ?c])"
      and f1: "failed p1 = failed p @ (if bad ?c then [slug ?c] else [])"
      and w1: "files s1 PROGRESS_FILE = Some (progress_show ev p1)"
  proof (cases rule: fetchItem_cases [of ev ?c s])
    case (returns s0)
    then have "\<not> bad ?c" using det mem by (metis outcome.distinct(1) prod.inject)
    then show ?thesis using processItem_returns [OF persist returns, of p] that by auto
  next
    case (throws e s0)
    then have "bad ?c" using det mem by blast
    then show ?thesis using processItem_throws [OF persist throws, of p] that by auto
  qed
  obtain p' s' where rest: "downloadLoop ev remaining (Suc i) p1 s1 = (Return p', s')"
      and c2: "completed p' = completed p1 @ map slug (filter (\<lambda>c. \<not> bad c) (drop (Suc i) remaining))"
      and f2: "failed p' = failed p1 @ map slug (filter bad (drop (Suc i) remaining))"
      and w2: "Suc i < length remaining \<longrightarrow> files s' PROGRESS_FILE = Some (progress_show ev p')"
    using Suc.hyps(1) [OF k, of p1 s1] by blast
  have last: "\<not> Suc i < length remaining \<Longrightarrow> p' = p1 \<and> s' = s1"
    using rest by (simp add: downloadLoop.simps)
  have "downloadLoop ev remaining i p s = (Return p', s')"
    using i step rest by (subst downloadLoop.simps) simp
  moreover have "files s' PROGRESS_FILE = Some (progress_show ev p')"
    using w1 w2 last by blast
  ultimately show ?case using c1 c2 f1 f2 dr by simp
qed

section \<open>Runs in the sample environment\<close>

lemma navigate_command_inject [simp]: "(navigate_command u = navigate_command v) = (u = v)"
  by (simp add: navigate_command_def)

lemma not_navigate [simp]:
  "react_tab_command \<noteq> navigate_command u"
  "code_command \<noteq> navigate_command u"
  "metadata_command \<noteq> navigate_command u"
  "image_tab_command \<noteq> navigate_command u"
  "screenshot_command \<noteq> navigate_command u"
  "close_command \<noteq> navigate_command u"
  "components_command \<noteq> navigate_command u"
  "categories_command \<noteq> navigate_command u"
  "next_page_command \<noteq> navigate_command u"
  by (simp_all add: navigate_command_def react_tab_command_def code_command_def
        metadata_command_def image_tab_command_def screenshot_command_def close_command_def
        components_command_def categories_command_def next_page_command_def)

lemma commands_distinct [simp]:
  "react_tab_command \<noteq> code_command" "react_tab_command \<noteq> metadata_command"
  "react_tab_command \<noteq> screenshot_command"
  "metadata_command \<noteq> code_command"
  "image_tab_command \<noteq> code_command" "image_tab_command \<noteq> metadata_command"
  "image_tab_command \<noteq> screenshot_command"
  "screenshot_command \<noteq> code_command" "screenshot_command \<noteq> metadata_command"
  "close_command \<noteq> code_command" "close_command \<noteq> metadata_command"
  "close_command \<noteq> screenshot_command"
  "components_command \<noteq> code_command" "components_command \<noteq> metadata_command"
  "components_command \<noteq> screenshot_command"
  "categories_command \<noteq> code_command" "categories_command \<noteq> metadata_command"
  "categories_command \<noteq> screenshot_command"
  "next_page_command \<noteq> code_command" "next_page_command \<noteq> metadata_command"
  "next_page_command \<noteq> screenshot_command"
  by (simp_all add: react_tab_command_def code_command_def
        metadata_command_def image_tab_command_def screenshot_command_def close_command_def
        components_command_def categories_command_def next_page_command_def)

lemmas navigate_not [simp] = not_navigate [symmetric]

lemma page_url_inject [simp]: "(page_url a = page_url b) = (a = b)"
  by (simp add: page_url_def)

lemma navigate_in_broken [simp]:
  "(navigate_command (page_url a) \<in> (\<lambda>sl. navigate_command (page_url sl)) ` A) = (a \<in> A)"
  by auto

lemma sample_respond_navigate [simp]:
  "sample_respond broken (navigate_command (component_url c)) =
     (if slug c \<in> set broken
      then Answer (ok_reply\<lparr>success := False, error := Some ''AccessDenied''\<rparr>)
      else Answer ok_reply)"
  by (simp add: sample_respond_def component_url_def)

lemma not_in_broken [simp]:
  "react_tab_command \<notin> (\<lambda>sl. navigate_command (f sl)) ` A"
  "code_command \<notin> (\<lambda>sl. navigate_command (f sl)) ` A"
  "metadata_command \<notin> (\<lambda>sl. navigate_command (f sl)) ` A"
  "image_tab_command \<notin> (\<lambda>sl. navigate_command (f sl)) ` A"
  "screenshot_command \<notin> (\<lambda>sl. navigate_command (f sl)) ` A"
  "close_command \<notin> (\<lambda>sl. navigate_command (f sl)) ` A"
  "components_command \<notin> (\<lambda>sl. navigate_command (f sl)) ` A"
  "categories_command \<notin> (\<lambda>sl. navigate_command (f sl)) ` A"
  "next_page_command \<notin> (\<lambda>sl. navigate_command (f sl)) ` A"
  by auto

lemma sample_respond_commands [simp]:
  "sample_respond broken react_tab_command = Answer ok_reply"
  "sample_respond broken image_tab_command = Answer ok_reply"
  "sample_respond broken close_command = Answer ok_reply"
  "sample_respond broken components_command = Answer ok_reply"
  "sample_respond broken categories_command = Answer ok_reply"
  "sample_respond broken next_page_command = Answer ok_reply"
  "sample_respond broken screenshot_command = Answer (ok_reply\<lparr>screenshot := Some ''/tmp/shot.png''\<rparr>)"
  "sample_respond broken code_command = Answer (ok_reply\<lparr>message :=
             Some ''Successfully extracted data: {\"code\": \"export default function Navbar1(){}\"}''\<rparr>)"
  "sample_respond broken metadata_command = Answer (ok_reply\<lparr>message :=
             Some ''Successfully extracted data: {\"reactVersion\": \"18\", \"tailwindVersion\": \"3\", \"lastUpdated\": \"2024-01-01\"}''\<rparr>)"
  by (simp_all add: sample_respond_def)

lemma ok_reply_simps [simp]:
  "success ok_reply" "message ok_reply = None" "error ok_reply = None" "screenshot ok_reply = None"
  by (simp_all add: ok_reply_def)

lemma sample_embedded [simp]:
  "match_braces ''Successfully extracted data: {\"code\": \"export default function Navbar1(){}\"}'' =
     Some ''{\"code\": \"export default function Navbar1(){}\"}''"
  "match_braces ''Successfully extracted data: {\"reactVersion\": \"18\", \"tailwindVersion\": \"3\", \"lastUpdated\": \"2024-01-01\"}'' =
     Some ''{\"reactVersion\": \"18\", \"tailwindVersion\": \"3\", \"lastUpdated\": \"2024-01-01\"}''"
  by (simp_all add: match_braces_def)

lemma sample_json_simps [simp]:
  "sample_json ''{\"code\": \"export default function Navbar1(){}\"}'' =
     Some (JObj [(''code'', JStr ''export default function Navbar1(){}'')])"
  "sample_json ''{\"reactVersion\": \"18\", \"tailwindVersion\": \"3\", \"lastUpdated\": \"2024-01-01\"}'' =
     Some (JObj [(''reactVersion'', JStr ''18''), (''tailwindVersion'', JStr ''3''),
                       (''lastUpdated'', JStr ''2024-01-01'')])"
  by (simp_all add: sample_json_def)

lemma sample_retrieve:
  assumes "respond ev = (\<lambda>h. sample_respond broken)" "json_parse ev = sample_json"
  shows "retrieve ev c s =
     (if slug c \<in> set broken
      then (Throw ''AccessDenied'', emit (Exec (navigate_command (component_url c))) s)
      else (Return (Some (JStr ''export default function Navbar1(){}''),
                    JObj [(''reactVersion'', JStr ''18''), (''tailwindVersion'', JStr ''3''),
                          (''lastUpdated'', JStr ''2024-01-01'')],
                    Some ''/tmp/shot.png''),
            s\<lparr>trace := trace s @
               [Exec (navigate_command (component_url c)), Sleep 2000,
                Exec react_tab_command, Sleep 3000,
                Exec code_command, Exec metadata_command,
                Exec image_tab_command, Sleep 1000, Exec screenshot_command]\<rparr>))"
  by (simp add: assms retrieve_def bind_def browserCommand_def failure_message_def
        embedded_json_def ret_def throw_def get_prop_def emit_def)

lemma sample_saveComponentFile:
  assumes "md \<noteq> JNull" "\<forall>h e. fs_fault ev h e = None"
  shows "saveComponentFile ev c code md s =
     (Return (),
      s\<lparr>trace := trace s @
            [Mkdir (categoryDir c),
             WriteFile (componentPath c) (metadataHeader c md @ js_string_opt code)],
        files := (files s)(componentPath c \<mapsto> metadataHeader c md @ js_string_opt code)\<rparr>)"
  using assms by (simp add: saveComponentFile_def bind_def ensureDir_def writeFile_def emit_def)

lemma sample_fetchItem_throws:
  "slug c \<in> set broken \<Longrightarrow>
   fetchItem (sample_env broken) c s =
     (Throw ''AccessDenied'', emit (Exec (navigate_command (component_url c))) s)"
  by (simp add: fetchItem_def bind_def sample_retrieve)

lemma sample_fetchItem_returns:
  "slug c \<notin> set broken \<Longrightarrow> \<exists>s1. fetchItem (sample_env broken) c s = (Return (), s1)"
  by (simp add: fetchItem_def bind_def sample_retrieve sample_saveComponentFile copyFile_def
        disk_def emit_def split: option.splits)

lemma sample_fetchItem_throws_iff:
  "(\<exists>e s1. fetchItem (sample_env broken) c s = (Throw e, s1)) = (slug c \<in> set broken)"
proof (cases "slug c \<in> set broken")
  case True
  then show ?thesis using sample_fetchItem_throws [of c broken s] by simp
next
  case False
  then obtain s1 where "fetchItem (sample_env broken) c s = (Return (), s1)"
    using sample_fetchItem_returns [of c broken s] by blast
  then show ?thesis using False by simp
qed

lemma saveProgress_returned:
  assumes "saveProgress ev q s = (Return p1, s2)"
  shows "p1 = stamp ev q s" and "files s2 PROGRESS_FILE = Some (progress_show ev p1)"
  using assms
  by (auto simp: saveProgress_def bind_def writeFile_def ret_def split: option.splits)

lemma saveProgress_event:
  "trace (snd (saveProgress ev q s)) =
     trace s @ [WriteFile PROGRESS_FILE (progress_show ev (stamp ev q s))]"
  by (auto simp: saveProgress_def bind_def writeFile_def ret_def split: option.splits)

lemma tryBlock_throws_record:
  assumes "tryBlock ev remaining i p s = ((Throw e, q), s1)"
  shows "failed q = failed p"
    and "completed q = completed p \<or> completed q = completed p @ [slug (remaining ! i)]"
  using assms
  by (auto simp: tryBlock_def split: prod.splits outcome.splits if_splits)

text \<open>The handler's own save is not guarded: when it throws, the error leaves the loop.\<close>

lemma handler_failure_ends_run:
  assumes "i < length remaining"
      and "tryBlock ev remaining i p s = ((Throw e, q), s1)"
      and "saveProgress ev (q\<lparr>failed := failed q @ [slug (remaining ! i)]\<rparr>) s1 = (Throw e', s2)"
  shows "downloadLoop ev remaining i p s = (Throw e', s2)"
  using assms by (subst downloadLoop.simps) (simp add: processItem_def onFailure_def)

lemma remaining_of_fresh [simp]:
  "remaining_of catalog (fresh_progress t) = components catalog"
  by (simp add: remaining_of_def fresh_progress_def array_includes_def)

lemma saveProgress_thrown:
  assumes "saveProgress ev q s = (Throw e, s2)"
  shows "files s2 = files s"
  using assms
  by (auto simp: saveProgress_def bind_def writeFile_def ret_def split: option.splits)

lemma flaky_env_simps [simp]:
  "respond (flaky_env broken) = (\<lambda>h. sample_respond broken)"
  "json_parse (flaky_env broken) = sample_json"
  "clock (flaky_env broken) h = ''2024-01-01T00:00:00.000Z''"
  "progress_parse (flaky_env broken) t = None"
  "progress_show (flaky_env broken) = sample_progress_show"
  "outside (flaky_env broken) h p = (if p = ''/tmp/shot.png'' then Some ''PNG'' else None)"
  "fs_fault (flaky_env broken) h (ReadFile p) = None"
  "fs_fault (flaky_env broken) h (WriteFile PROGRESS_FILE d) =
     (if progress_written h then None else Some ''EIO'')"
  by (simp_all add: flaky_env_def)

lemma flaky_fetchItem_throws:
  "slug c \<in> set broken \<Longrightarrow>
   fetchItem (flaky_env broken) c s =
     (Throw ''AccessDenied'', emit (Exec (navigate_command (component_url c))) s)"
  by (simp add: fetchItem_def bind_def sample_retrieve [of "flaky_env broken" broken])

lemma flaky_loadProgress [simp]:
  "loadProgress (flaky_env broken) empty_disk =
     (Return (fresh_progress ''2024-01-01T00:00:00.000Z''), emit (ReadFile PROGRESS_FILE) empty_disk)"
  by (simp add: loadProgress_def try_catch_def bind_def readFile_def disk_def PROGRESS_FILE_def)

lemma flaky_first_save:
  "\<not> progress_written (trace s) \<Longrightarrow>
   saveProgress (flaky_env broken) q s =
     (Throw ''EIO'',
      emit (WriteFile PROGRESS_FILE (sample_progress_show (stamp (flaky_env broken) q s))) s)"
  by (simp add: saveProgress_def bind_def writeFile_def)

text \<open>
  Claim C2 fails when the handler's own save fails. The catalog has three entries, the tool
  refuses the page of the first, and the disk refuses the first write of the progress
  document. The handler of the first item appends its slug to \<open>failed\<close> and calls
  \<^verbatim>\<open>saveProgress\<close> (line 360), which no \<^verbatim>\<open>try\<close> block guards: the error of the write leaves
  the loop and is the outcome of the run. The second and the third item are never tried,
  and the progress document is not written.
\<close>

theorem handler_save_failure_counterexample:
  "fst (downloadRun (flaky_env [''navbar-1''])
          (sample_catalog [''Navbar 1'', ''Navbar 2'', ''Navbar 3'']) empty_disk) = Throw ''EIO'' \<and>
   trace (snd (downloadRun (flaky_env [''navbar-1''])
          (sample_catalog [''Navbar 1'', ''Navbar 2'', ''Navbar 3'']) empty_disk)) =
     [ReadFile PROGRESS_FILE,
      Exec (navigate_command (page_url ''navbar-1'')),
      WriteFile PROGRESS_FILE ''completed: ; failed: navbar-1''] \<and>
   files (snd (downloadRun (flaky_env [''navbar-1''])
          (sample_catalog [''Navbar 1'', ''Navbar 2'', ''Navbar 3'']) empty_disk)) PROGRESS_FILE = None"
proof -
  let ?ev = "flaky_env [''navbar-1'']"
  let ?cs = "map component_of_name [''Navbar 1'', ''Navbar 2'', ''Navbar 3'']"
  let ?p = "fresh_progress ''2024-01-01T00:00:00.000Z''"
  let ?s0 = "emit (ReadFile PROGRESS_FILE) empty_disk"
  let ?s1 = "emit (Exec (navigate_command (component_url (?cs ! 0)))) ?s0"
  have thr: "tryBlock ?ev ?cs 0 ?p ?s0 = ((Throw ''AccessDenied'', ?p), ?s1)"
    by (simp add: tryBlock_def flaky_fetchItem_throws)
  have sv: "saveProgress ?ev (?p\<lparr>failed := failed ?p @ [slug (?cs ! 0)]\<rparr>) ?s1 =
      (Throw ''EIO'',
       emit (WriteFile PROGRESS_FILE
               (sample_progress_show (stamp ?ev (?p\<lparr>failed := failed ?p @ [slug (?cs ! 0)]\<rparr>) ?s1))) ?s1)"
    by (rule flaky_first_save) (simp add: progress_written_def)
  have "downloadLoop ?ev ?cs 0 ?p ?s0 =
      (Throw ''EIO'',
       emit (WriteFile PROGRESS_FILE
               (sample_progress_show (stamp ?ev (?p\<lparr>failed := failed ?p @ [slug (?cs ! 0)]\<rparr>) ?s1))) ?s1)"
    by (rule handler_failure_ends_run [OF _ thr sv]) simp
  then have "downloadRun ?ev (sample_catalog [''Navbar 1'', ''Navbar 2'', ''Navbar 3'']) empty_disk =
      (Throw ''EIO'',
       emit (WriteFile PROGRESS_FILE
               (sample_progress_show (stamp ?ev (?p\<lparr>failed := failed ?p @ [slug (?cs ! 0)]\<rparr>) ?s1))) ?s1)"
    by (simp add: downloadRun_def bind_def)
  then show ?thesis
    by (simp add: component_url_def sample_progress_show_def fresh_progress_def stamp_def)
qed

text \<open>
  Claim C2, amended. When the \<^verbatim>\<open>try\<close> block of an item throws, whatever the step and the
  error, the block has left \<open>failed\<close> as it was, and the outcome of the iteration is that of
  the handler's save of the record with the item's slug, and nothing else, appended to
  \<open>failed\<close>. When that save returns, the record is in the progress file and the loop goes on
  with the next index. When that save throws, its error is the outcome of the loop: the run
  ends there, and the files are as the block left them. And for a work set in which the
  items that fail are those of a set \<open>bad\<close>, whatever the state they are run in, and nothing
  else fails (the progress file can be written): the run returns, with the slugs of the
  items of \<open>bad\<close> appended to \<open>failed\<close> and the slugs of the others appended to \<open>completed\<close>,
  each in catalog order, and with the record in the progress file.
\<close>

theorem download_fault_isolation:
  "(i < length remaining \<and> tryBlock ev remaining i p s = ((Throw e, q), s1) \<longrightarrow>
      failed q = failed p \<and>
      processItem ev remaining i p s =
        saveProgress ev (q\<lparr>failed := failed p @ [slug (remaining ! i)]\<rparr>) s1) \<and>
   (i < length remaining \<and> tryBlock ev remaining i p s = ((Throw e, q), s1) \<and>
    saveProgress ev (q\<lparr>failed := failed q @ [slug (remaining ! i)]\<rparr>) s1 = (Return p1, s2) \<longrightarrow>
      failed p1 = failed p @ [slug (remaining ! i)] \<and>
      files s2 PROGRESS_FILE = Some (progress_show ev p1) \<and>
      processItem ev remaining i p s = (Return p1, s2) \<and>
      downloadLoop ev remaining i p s = downloadLoop ev remaining (i + 1) p1 s2) \<and>
   (i < length remaining \<and> tryBlock ev remaining i p s = ((Throw e, q), s1) \<and>
    saveProgress ev (q\<lparr>failed := failed q @ [slug (remaining ! i)]\<rparr>) s1 = (Throw e', s2') \<longrightarrow>
      processItem ev remaining i p s = (Throw e', s2') \<and>
      downloadLoop ev remaining i p s = (Throw e', s2') \<and>
      files s2' = files s1) \<and>
   ((\<forall>h d. fs_fault ev h (WriteFile PROGRESS_FILE d) = None) \<and>
    (\<forall>c \<in> set remaining. \<forall>s. (\<exists>e s1. fetchItem ev c s = (Throw e, s1)) = bad c) \<longrightarrow>
      (\<exists>p' s'. downloadLoop ev remaining 0 p s = (Return p', s') \<and>
         completed p' = completed p @ map slug (filter (\<lambda>c. \<not> bad c) remaining) \<and>
         failed p' = failed p @ map slug (filter bad remaining) \<and>
         (remaining \<noteq> [] \<longrightarrow> files s' PROGRESS_FILE = Some (progress_show ev p'))))"
proof (intro conjI impI)
  assume "i < length remaining \<and> tryBlock ev remaining i p s = ((Throw e, q), s1)"
  then have thr: "tryBlock ev remaining i p s = ((Throw e, q), s1)" by blast
  show f: "failed q = failed p"
    by (rule tryBlock_throws_record(1) [OF thr])
  show "processItem ev remaining i p s =
        saveProgress ev (q\<lparr>failed := failed p @ [slug (remaining ! i)]\<rparr>) s1"
    by (simp add: processItem_def thr onFailure_def f)
next
  assume a: "i < length remaining \<and> tryBlock ev remaining i p s = ((Throw e, q), s1) \<and>
    saveProgress ev (q\<lparr>failed := failed q @ [slug (remaining ! i)]\<rparr>) s1 = (Return p1, s2)"
  then have i: "i < length remaining"
    and thr: "tryBlock ev remaining i p s = ((Throw e, q), s1)"
    and sv: "saveProgress ev (q\<lparr>failed := failed q @ [slug (remaining ! i)]\<rparr>) s1 = (Return p1, s2)"
    by blast+
  show "failed p1 = failed p @ [slug (remaining ! i)]"
    using saveProgress_returned(1) [OF sv] tryBlock_throws_record(1) [OF thr] by simp
  show "files s2 PROGRESS_FILE = Some (progress_show ev p1)"
    by (rule saveProgress_returned(2) [OF sv])
  show step: "processItem ev remaining i p s = (Return p1, s2)"
    by (simp add: processItem_def thr onFailure_def sv)
  show "downloadLoop ev remaining i p s = downloadLoop ev remaining (i + 1) p1 s2"
    using i step by (subst downloadLoop.simps) simp
next
  assume a: "i < length remaining \<and> tryBlock ev remaining i p s = ((Throw e, q), s1) \<and>
    saveProgress ev (q\<lparr>failed := failed q @ [slug (remaining ! i)]\<rparr>) s1 = (Throw e', s2')"
  then have i: "i < length remaining"
    and thr: "tryBlock ev remaining i p s = ((Throw e, q), s1)"
    and sv: "saveProgress ev (q\<lparr>failed := failed q @ [slug (remaining ! i)]\<rparr>) s1 = (Throw e', s2')"
    by blast+
  show "processItem ev remaining i p s = (Throw e', s2')"
    by (simp add: processItem_def thr onFailure_def sv)
  show "downloadLoop ev remaining i p s = (Throw e', s2')"
    by (rule handler_failure_ends_run [OF i thr sv])
  show "files s2' = files s1"
    by (rule saveProgress_thrown [OF sv])
next
  assume "(\<forall>h d. fs_fault ev h (WriteFile PROGRESS_FILE d) = None) \<and>
    (\<forall>c \<in> set remaining. \<forall>s. (\<exists>e s1. fetchItem ev c s = (Throw e, s1)) = bad c)"
  then have persist: "\<forall>h d. fs_fault ev h (WriteFile PROGRESS_FILE d) = None"
    and det: "\<forall>c \<in> set remaining. \<forall>s. (\<exists>e s1. fetchItem ev c s = (Throw e, s1)) = bad c"
    by blast+
  show "\<exists>p' s'. downloadLoop ev remaining 0 p s = (Return p', s') \<and>
         completed p' = completed p @ map slug (filter (\<lambda>c. \<not> bad c) remaining) \<and>
         failed p' = failed p @ map slug (filter bad remaining) \<and>
         (remaining \<noteq> [] \<longrightarrow> files s' PROGRESS_FILE = Some (progress_show ev p'))"
    using downloadLoop_accounts [OF persist det, of 0 p s] by simp
qed

lemma sample_loadProgress [simp]:
  "loadProgress (sample_env broken) empty_disk =
     (Return (fresh_progress ''2024-01-01T00:00:00.000Z''), emit (ReadFile PROGRESS_FILE) empty_disk)"
  by (simp add: loadProgress_def try_catch_def bind_def readFile_def disk_def PROGRESS_FILE_def)

lemma slug_inject_navbar [simp]:
  "(nameToSlug ''Navbar 1'' = nameToSlug ''Navbar 2'') = False"
  by simp

theorem download_fault_isolation_witness:
  "map_option completed
     (returned (fst (downloadRun (sample_env [''navbar-2''])
                       (sample_catalog [''Navbar 1'', ''Navbar 2'', ''Navbar 3'']) empty_disk))) =
     Some [''navbar-1'', ''navbar-3''] \<and>
   map_option failed
     (returned (fst (downloadRun (sample_env [''navbar-2''])
                       (sample_catalog [''Navbar 1'', ''Navbar 2'', ''Navbar 3'']) empty_disk))) =
     Some [''navbar-2''] \<and>
   files (snd (downloadRun (sample_env [''navbar-2''])
                 (sample_catalog [''Navbar 1'', ''Navbar 2'', ''Navbar 3'']) empty_disk))
     PROGRESS_FILE = Some ''completed: navbar-1,navbar-3; failed: navbar-2'' \<and>
   map_option failed
     (returned (fst (processItem (sample_env [''navbar-2''])
                       (map component_of_name [''Navbar 1'', ''Navbar 2'', ''Navbar 3'']) 1
                       (fresh_progress ''2024-01-01T00:00:00.000Z'') empty_disk))) =
     Some [''navbar-2''] \<and>
   fst (downloadLoop (flaky_env [''navbar-1''])
          (map component_of_name [''Navbar 1'', ''Navbar 2'', ''Navbar 3'']) 0
          (fresh_progress ''2024-01-01T00:00:00.000Z'') empty_disk) = Throw ''EIO''"
proof -
  let ?ev = "sample_env [''navbar-2'']"
  let ?cs = "map component_of_name [''Navbar 1'', ''Navbar 2'', ''Navbar 3'']"
  let ?p = "fresh_progress ''2024-01-01T00:00:00.000Z''"
  have persist: "\<forall>h d. fs_fault ?ev h (WriteFile PROGRESS_FILE d) = None" by simp
  have det: "\<forall>c \<in> set ?cs. \<forall>s. (\<exists>e s1. fetchItem ?ev c s = (Throw e, s1)) = (slug c \<in> set [''navbar-2''])"
    using sample_fetchItem_throws_iff by blast
  note iso = download_fault_isolation [where remaining = ?cs and ev = ?ev]
  note acc = iso [where p = ?p and s = "emit (ReadFile PROGRESS_FILE) empty_disk"
                    and bad = "\<lambda>c. slug c \<in> set [''navbar-2'']",
                  THEN conjunct2, THEN conjunct2, THEN conjunct2, rule_format]
  from acc [OF conjI [OF persist det]]
  obtain p' s' where run: "downloadLoop ?ev ?cs 0 ?p (emit (ReadFile PROGRESS_FILE) empty_disk) = (Return p', s')"
    and c: "completed p' = [''navbar-1'', ''navbar-3'']" and f: "failed p' = [''navbar-2'']"
    and w: "files s' PROGRESS_FILE = Some (progress_show ?ev p')"
    by (auto simp: fresh_progress_def)
  have r: "downloadRun ?ev (sample_catalog [''Navbar 1'', ''Navbar 2'', ''Navbar 3'']) empty_disk = (Return p', s')"
    using run by (simp add: downloadRun_def bind_def)
  let ?s1 = "emit (Exec (navigate_command (component_url (?cs ! 1)))) empty_disk"
  have thr: "tryBlock ?ev ?cs 1 ?p empty_disk = ((Throw ''AccessDenied'', ?p), ?s1)"
    by (simp add: tryBlock_def sample_fetchItem_throws)
  obtain p1 s2 where sv: "saveProgress ?ev (?p\<lparr>failed := failed ?p @ [slug (?cs ! 1)]\<rparr>) ?s1 = (Return p1, s2)"
    using saveProgress_persists [OF persist] by blast
  from iso [where i = 1 and p = ?p and s = empty_disk and e = "''AccessDenied''" and q = ?p
              and ?s1.0 = ?s1 and ?p1.0 = p1 and ?s2.0 = s2] thr sv
  have "failed p1 = failed ?p @ [slug (?cs ! 1)]"
    and "processItem ?ev ?cs 1 ?p empty_disk = (Return p1, s2)"
    by simp_all
  then have item: "map_option failed (returned (fst (processItem ?ev ?cs 1 ?p empty_disk))) =
     Some [''navbar-2'']"
    by (simp add: returned_def fresh_progress_def)
  let ?fv = "flaky_env [''navbar-1'']"
  let ?t1 = "emit (Exec (navigate_command (component_url (?cs ! 0)))) empty_disk"
  let ?t2 = "emit (WriteFile PROGRESS_FILE
               (sample_progress_show (stamp ?fv (?p\<lparr>failed := failed ?p @ [slug (?cs ! 0)]\<rparr>) ?t1))) ?t1"
  have fthr: "tryBlock ?fv ?cs 0 ?p empty_disk = ((Throw ''AccessDenied'', ?p), ?t1)"
    by (simp add: tryBlock_def flaky_fetchItem_throws)
  have fsv: "saveProgress ?fv (?p\<lparr>failed := failed ?p @ [slug (?cs ! 0)]\<rparr>) ?t1 = (Throw ''EIO'', ?t2)"
    by (rule flaky_first_save) (simp add: progress_written_def)
  from download_fault_isolation [where remaining = ?cs and ev = ?fv and i = 0 and p = ?p
         and s = empty_disk and e = "''AccessDenied''" and q = ?p and ?s1.0 = ?t1
         and e' = "''EIO''" and s2' = ?t2] fthr fsv
  have ended: "downloadLoop ?fv ?cs 0 ?p empty_disk = (Throw ''EIO'', ?t2)"
    by simp
  show ?thesis using r c f w item ended by (simp add: returned_def sample_progress_show_def)
qed


text \<open>
  Claim C9. The work set is computed once, from the progress record as loaded, and the loop
  runs over all of it: when every item succeeds, the slugs of the whole work set are
  appended to \<open>completed\<close>, whatever the record has become in between. For a catalog of two
  entries with the same slug, in neither list of the loaded record, the slug is appended
  twice.
\<close>

theorem duplicate_slug_processed_twice:
  assumes persist: "\<forall>h d. fs_fault ev h (WriteFile PROGRESS_FILE d) = None"
      and ok: "\<forall>c \<in> set (components catalog). \<forall>s. \<exists>s1. fetchItem ev c s = (Return (), s1)"
      and loaded: "loadProgress ev s = (Return p0, s0)"
  shows "\<exists>p' s'. downloadRun ev catalog s = (Return p', s') \<and>
           completed p' = completed p0 @ map slug (remaining_of catalog p0) \<and>
           (\<forall>a b. components catalog = [a, b] \<and> slug a = slug b \<and>
                  slug a \<notin> set (completed p0) \<and> slug a \<notin> set (failed p0) \<longrightarrow>
                  completed p' = completed p0 @ [slug a, slug a])"
proof -
  have det: "\<forall>c \<in> set (remaining_of catalog p0). \<forall>s.
               (\<exists>e s1. fetchItem ev c s = (Throw e, s1)) = False"
  proof (intro ballI allI)
    fix c s
    assume "c \<in> set (remaining_of catalog p0)"
    then have "c \<in> set (components catalog)" by (simp add: remaining_of_def)
    then obtain s1 where "fetchItem ev c s = (Return (), s1)" using ok by blast
    then show "(\<exists>e s1. fetchItem ev c s = (Throw e, s1)) = False" by simp
  qed
  from downloadLoop_accounts [OF persist det, of 0 p0 s0]
  obtain p' s' where run: "downloadLoop ev (remaining_of catalog p0) 0 p0 s0 = (Return p', s')"
    and c: "completed p' = completed p0 @ map slug (remaining_of catalog p0)"
    by auto
  have "downloadRun ev catalog s = (Return p', s')"
    using run loaded by (simp add: downloadRun_def bind_def)
  moreover have "\<forall>a b. components catalog = [a, b] \<and> slug a = slug b \<and>
                  slug a \<notin> set (completed p0) \<and> slug a \<notin> set (failed p0) \<longrightarrow>
                  completed p' = completed p0 @ [slug a, slug a]"
    using c by (auto simp: remaining_of_def array_includes_def)
  ultimately show ?thesis using c by blast
qed

theorem duplicate_slug_processed_twice_witness:
  "map slug (components (sample_catalog [''Navbar 1'', ''Navbar 1''])) = [''navbar-1'', ''navbar-1''] \<and>
   map_option completed
     (returned (fst (downloadRun (sample_env [])
                       (sample_catalog [''Navbar 1'', ''Navbar 1'']) empty_disk))) =
     Some [''navbar-1'', ''navbar-1'']"
proof -
  let ?ev = "sample_env []"
  let ?cat = "sample_catalog [''Navbar 1'', ''Navbar 1'']"
  have persist: "\<forall>h d. fs_fault ?ev h (WriteFile PROGRESS_FILE d) = None" by simp
  have ok: "\<forall>c \<in> set (components ?cat). \<forall>s. \<exists>s1. fetchItem ?ev c s = (Return (), s1)"
  proof (intro ballI allI)
    fix c s
    show "\<exists>s1. fetchItem ?ev c s = (Return (), s1)"
      by (rule sample_fetchItem_returns) simp
  qed
  from duplicate_slug_processed_twice [OF persist ok sample_loadProgress]
  obtain p' s' where run: "downloadRun ?ev ?cat empty_disk = (Return p', s')"
    and two: "\<forall>a b. components ?cat = [a, b] \<and> slug a = slug b \<and>
                  slug a \<notin> set (completed (fresh_progress ''2024-01-01T00:00:00.000Z'')) \<and>
                  slug a \<notin> set (failed (fresh_progress ''2024-01-01T00:00:00.000Z'')) \<longrightarrow>
                  completed p' = completed (fresh_progress ''2024-01-01T00:00:00.000Z'') @ [slug a, slug a]"
    by blast
  have "completed p' = completed (fresh_progress ''2024-01-01T00:00:00.000Z'')
          @ [slug (component_of_name ''Navbar 1''), slug (component_of_name ''Navbar 1'')]"
    by (rule two [rule_format, of "component_of_name ''Navbar 1''" "component_of_name ''Navbar 1''"])
       (simp add: fresh_progress_def)
  then have c: "completed p' = [''navbar-1'', ''navbar-1'']"
    by (simp add: fresh_progress_def)
  show ?thesis using run c by (simp add: returned_def)
qed

section \<open>Paths of the artifacts\<close>

lemma split_on_not_Nil [simp]: "split_on d s \<noteq> []"
  by (induction s) (auto split: list.splits)

lemma split_on_append:
  "d \<notin> set ys \<Longrightarrow>
   split_on d (xs @ ys) = butlast (split_on d xs) @ [last (split_on d xs) @ ys]"
proof (induction xs)
  case Nil
  then show ?case by (induction ys) (auto split: list.splits)
next
  case (Cons x xs)
  then show ?case by (auto split: list.splits simp: butlast_append)
qed

lemma normalize_segments_snoc:
  "seg \<noteq> [] \<Longrightarrow> seg \<noteq> ''.'' \<Longrightarrow> seg \<noteq> ''..'' \<Longrightarrow>
   normalize_segments up res (segs @ [seg]) = normalize_segments up res segs @ [seg]"
  by (induction segs arbitrary: res) auto

lemma join_with_snoc:
  "y \<noteq> [] \<Longrightarrow> join_with sep (xs @ [y]) \<noteq> [] \<and> last (join_with sep (xs @ [y])) = last y"
  by (induction sep xs rule: join_with.induct) auto

lemma path_normalize_ext:
  assumes "CHR ''/'' \<notin> set ext" "ext \<noteq> []" "last ext \<noteq> CHR ''.''" "last ext \<noteq> CHR ''/''"
  shows "last (path_normalize (q @ ext)) = last ext"
proof -
  let ?seg = "last (split_on (CHR ''/'') q) @ ext"
  have seg: "?seg \<noteq> []" "?seg \<noteq> ''.''" "?seg \<noteq> ''..''"
    using assms by (auto simp: append_eq_Cons_conv)
  have "last ?seg = last ext" using assms by simp
  then have j: "join_with ''/'' (normalize_segments up [] (split_on (CHR ''/'') (q @ ext))) \<noteq> [] \<and>
        last (join_with ''/'' (normalize_segments up [] (split_on (CHR ''/'') (q @ ext)))) = last ext"
    for up
    using join_with_snoc [OF seg(1)]
    by (simp add: split_on_append [OF assms(1)] normalize_segments_snoc [OF seg])
  show ?thesis
    using assms j by (simp add: path_normalize_def Let_def)
qed

lemma path_join_ext:
  assumes "CHR ''/'' \<notin> set ext" "ext \<noteq> []" "last ext \<noteq> CHR ''.''" "last ext \<noteq> CHR ''/''"
  shows "last (path_join [d, n @ ext]) = last ext"
proof -
  have "\<exists>q. join_with ''/'' (filter (\<lambda>a. a \<noteq> []) [d, n @ ext]) = q @ ext"
    using assms by (cases "d = []") auto
  then obtain q where "join_with ''/'' (filter (\<lambda>a. a \<noteq> []) [d, n @ ext]) = q @ ext" ..
  then show ?thesis
    using assms path_normalize_ext [OF assms, of q] by (simp add: path_join_def)
qed

lemma componentPath_last: "last (componentPath c) = CHR ''x''"
  using path_join_ext [of "''.tsx''"] by (simp add: componentPath_def)

lemma imagePath_last: "last (imagePath c) = CHR ''g''"
  using path_join_ext [of "''.png''"] by (simp add: imagePath_def)

lemma componentPath_not_progress [simp]: "componentPath c \<noteq> PROGRESS_FILE"
  using componentPath_last [of c] by (auto simp: PROGRESS_FILE_def)

lemma componentPath_not_image [simp]: "componentPath c \<noteq> imagePath d"
  using componentPath_last [of c] imagePath_last [of d] by auto

section \<open>Failure after the source file is written\<close>

lemma saveComponentFile_written:
  assumes "saveComponentFile ev c code md s1 = (Return (), s2)"
  shows "files s2 (componentPath c) = Some (metadataHeader c md @ js_string_opt code)"
  using assms
  by (auto simp: saveComponentFile_def bind_def ensureDir_def writeFile_def throw_def
           split: option.splits if_splits)

lemma copyFile_throws_files:
  assumes "copyFile ev src dst s2 = (Throw e, s3)"
  shows "files s3 = files s2"
  using assms by (auto simp: copyFile_def split: option.splits)

lemma saveProgress_keeps:
  assumes "path \<noteq> PROGRESS_FILE"
  shows "files (snd (saveProgress ev p s)) path = files s path"
  using assms
  by (auto simp: saveProgress_def bind_def writeFile_def ret_def split: option.splits)

text \<open>
  Claim C10. The source file is written before the screenshot is copied, and nothing undoes
  it: when the steps of an item up to the write of its \<^verbatim>\<open>.tsx\<close> file succeed and the copy of
  the screenshot throws, the iteration is the handler's save of the record with the slug
  appended to \<open>failed\<close>, and the \<^verbatim>\<open>.tsx\<close> file is on the disk with its content, when the copy
  has failed and still after the handler.
\<close>

theorem artifact_survives_failure:
  assumes got: "retrieve ev (remaining ! i) s = (Return (code, md, shot), s1)"
      and saved: "saveComponentFile ev (remaining ! i) code md s1 = (Return (), s2)"
      and copy: "copyFile ev shot (imagePath (remaining ! i)) s2 = (Throw e, s3)"
  shows "processItem ev remaining i p s =
           saveProgress ev (p\<lparr>failed := failed p @ [slug (remaining ! i)]\<rparr>) s3 \<and>
         files s3 (componentPath (remaining ! i)) =
           Some (metadataHeader (remaining ! i) md @ js_string_opt code) \<and>
         files (snd (processItem ev remaining i p s)) (componentPath (remaining ! i)) =
           Some (metadataHeader (remaining ! i) md @ js_string_opt code)"
proof -
  have thr: "fetchItem ev (remaining ! i) s = (Throw e, s3)"
    using got saved copy by (simp add: fetchItem_def bind_def)
  have step: "processItem ev remaining i p s =
           saveProgress ev (p\<lparr>failed := failed p @ [slug (remaining ! i)]\<rparr>) s3"
    by (simp add: processItem_def tryBlock_def thr onFailure_def)
  have written: "files s3 (componentPath (remaining ! i)) =
           Some (metadataHeader (remaining ! i) md @ js_string_opt code)"
    using saveComponentFile_written [OF saved] copyFile_throws_files [OF copy] by simp
  show ?thesis
    using step written by (simp add: saveProgress_keeps)
qed

theorem artifact_survives_failure_witness:
  "map_option failed
     (returned (fst (processItem ((sample_env [])\<lparr>outside := (\<lambda>h p. None)\<rparr>)
                       [component_of_name ''Navbar 1''] 0
                       (fresh_progress ''2024-01-01T00:00:00.000Z'') empty_disk))) =
     Some [''navbar-1''] \<and>
   files (snd (processItem ((sample_env [])\<lparr>outside := (\<lambda>h p. None)\<rparr>)
                 [component_of_name ''Navbar 1''] 0
                 (fresh_progress ''2024-01-01T00:00:00.000Z'') empty_disk))
     (componentPath (component_of_name ''Navbar 1'')) =
     Some (metadataHeader (component_of_name ''Navbar 1'')
             (JObj [(''reactVersion'', JStr ''18''), (''tailwindVersion'', JStr ''3''),
                    (''lastUpdated'', JStr ''2024-01-01'')])
           @ ''export default function Navbar1(){}'') \<and>
   files (snd (processItem ((sample_env [])\<lparr>outside := (\<lambda>h p. None)\<rparr>)
                 [component_of_name ''Navbar 1''] 0
                 (fresh_progress ''2024-01-01T00:00:00.000Z'') empty_disk))
     (imagePath (component_of_name ''Navbar 1'')) = None"
proof -
  let ?ev = "(sample_env [])\<lparr>outside := (\<lambda>h p. None)\<rparr>"
  let ?c = "component_of_name ''Navbar 1''"
  let ?md = "JObj [(''reactVersion'', JStr ''18''), (''tailwindVersion'', JStr ''3''),
                    (''lastUpdated'', JStr ''2024-01-01'')]"
  let ?p = "fresh_progress ''2024-01-01T00:00:00.000Z''"
  obtain s1 where got: "retrieve ?ev ([?c] ! 0) empty_disk =
      (Return (Some (JStr ''export default function Navbar1(){}''), ?md, Some ''/tmp/shot.png''), s1)"
    and f1: "files s1 = files empty_disk"
    by (simp add: sample_retrieve [of ?ev "[]"])
  obtain s2 where saved: "saveComponentFile ?ev ([?c] ! 0)
      (Some (JStr ''export default function Navbar1(){}'')) ?md s1 = (Return (), s2)"
    and f2: "files s2 = (files s1)(componentPath ?c \<mapsto>
                 metadataHeader ?c ?md @ ''export default function Navbar1(){}'')"
    by (simp add: sample_saveComponentFile [of ?md ?ev] js_string_opt_def)
  have ne: "componentPath ?c \<noteq> ''/tmp/shot.png''"
  proof
    assume "componentPath ?c = ''/tmp/shot.png''"
    then have "last (componentPath ?c) = CHR ''g''" by simp
    then show False using componentPath_last [of ?c] by simp
  qed
  have "files s2 ''/tmp/shot.png'' = None"
    using f1 f2 ne by auto
  then have copy: "copyFile ?ev (Some ''/tmp/shot.png'') (imagePath ([?c] ! 0)) s2 =
      (Throw ''ENOENT: no such file or directory'',
       emit (CopyFile ''/tmp/shot.png'' (imagePath ?c)) s2)"
    by (simp add: copyFile_def disk_def)
  have img: "files (emit (CopyFile ''/tmp/shot.png'' (imagePath ?c)) s2) (imagePath ?c) = None"
    using f1 f2 componentPath_not_image [of ?c ?c, symmetric] by simp
  from artifact_survives_failure [OF got saved copy, of ?p]
  have step: "processItem ?ev [?c] 0 ?p empty_disk =
           saveProgress ?ev (?p\<lparr>failed := failed ?p @ [slug ([?c] ! 0)]\<rparr>)
             (emit (CopyFile ''/tmp/shot.png'' (imagePath ?c)) s2)"
    and kept: "files (snd (processItem ?ev [?c] 0 ?p empty_disk)) (componentPath ([?c] ! 0)) =
           Some (metadataHeader ([?c] ! 0) ?md @ js_string_opt (Some (JStr ''export default function Navbar1(){}'')))"
    by blast+
  have "files (snd (processItem ?ev [?c] 0 ?p empty_disk)) (imagePath ?c) = None"
    unfolding step using img imagePath_last [of ?c]
    by (subst saveProgress_keeps) (auto simp: PROGRESS_FILE_def)
  moreover have "map_option failed (returned (fst (processItem ?ev [?c] 0 ?p empty_disk))) =
     Some [''navbar-1'']"
    unfolding step
    by (simp add: saveProgress_def bind_def writeFile_def ret_def returned_def fresh_progress_def)
  ultimately show ?thesis using kept by (simp add: js_string_opt_def)
qed

section \<open>Pacing of the download loop\<close>

lemma downloadLoop_done:
  "length remaining \<le> i \<Longrightarrow> downloadLoop ev remaining i p s = (Return p, s)"
  by (simp add: downloadLoop.simps)

lemma downloadLoop_step:
  "i < length remaining \<Longrightarrow> processItem ev remaining i p s = (Return p1, s1) \<Longrightarrow>
   downloadLoop ev remaining i p s = downloadLoop ev remaining (Suc i) p1 s1"
  by (subst downloadLoop.simps) simp

lemma sample_processItem_throws:
  assumes "slug (remaining ! i) \<in> set broken"
  shows "processItem (sample_env broken) remaining i p s =
     (Return (p\<lparr>failed := failed p @ [slug (remaining ! i)],
                lastUpdated := ''2024-01-01T00:00:00.000Z''\<rparr>),
      s\<lparr>trace := trace s @
            [Exec (navigate_command (component_url (remaining ! i))),
             WriteFile PROGRESS_FILE
               (sample_progress_show (p\<lparr>failed := failed p @ [slug (remaining ! i)]\<rparr>))],
        files := (files s)(PROGRESS_FILE \<mapsto>
               sample_progress_show (p\<lparr>failed := failed p @ [slug (remaining ! i)]\<rparr>))\<rparr>)"
  using assms
  by (simp add: processItem_def tryBlock_def sample_fetchItem_throws onFailure_def saveProgress_def bind_def
        writeFile_def ret_def stamp_def emit_def sample_progress_show_def)

lemma sample_processItem_returns:
  assumes "slug (remaining ! i) \<notin> set broken"
  shows "\<exists>p' s' rest. processItem (sample_env broken) remaining i p s = (Return p', s') \<and>
           trace s' = trace s @ Exec (navigate_command (component_url (remaining ! i))) # rest"
  using assms
  by (simp add: processItem_def tryBlock_def fetchItem_def bind_def sample_retrieve sample_saveComponentFile
        copyFile_def disk_def emit_def saveProgress_def writeFile_def ret_def
        split: option.splits)

text \<open>In every environment: a block that returns on an item that is not the last ends with
  the wait; an iteration whose block throws adds to the block's events the handler's write
  of the progress file, and nothing else.\<close>

lemma completed_item_waits:
  assumes "tryBlock ev remaining i p s = ((Return (), q), s2)" "i < length remaining - 1"
  shows "last (trace s2) = Sleep DELAY_MS"
  using assms by (auto simp: tryBlock_def split: prod.splits outcome.splits)

lemma failed_item_does_not_wait:
  assumes "tryBlock ev remaining i p s = ((Throw e, q), s1)"
  shows "trace (snd (processItem ev remaining i p s)) =
           trace s1 @ [WriteFile PROGRESS_FILE
             (progress_show ev (stamp ev (q\<lparr>failed := failed q @ [slug (remaining ! i)]\<rparr>) s1))]"
  by (simp add: processItem_def assms onFailure_def saveProgress_event)

text \<open>
  Claim C5, at an input where the code departs from it. The catalog has two entries and the
  tool refuses to navigate to the page of the first. The run reads the progress file,
  tries the first item, records its failure, and at once navigates to the page of the
  second item: no wait stands between the failure of an item and the start of the next.
\<close>

theorem no_delay_after_failed_item:
  "take 4 (trace (snd (downloadRun (sample_env [''navbar-1''])
                         (sample_catalog [''Navbar 1'', ''Navbar 2'']) empty_disk))) =
     [ReadFile PROGRESS_FILE,
      Exec (navigate_command (page_url ''navbar-1'')),
      WriteFile PROGRESS_FILE ''completed: ; failed: navbar-1'',
      Exec (navigate_command (page_url ''navbar-2''))]"
proof -
  let ?ev = "sample_env [''navbar-1'']"
  let ?cs = "map component_of_name [''Navbar 1'', ''Navbar 2'']"
  let ?p0 = "fresh_progress ''2024-01-01T00:00:00.000Z''"
  let ?s0 = "emit (ReadFile PROGRESS_FILE) empty_disk"
  obtain p1 s1 where step1: "processItem ?ev ?cs 0 ?p0 ?s0 = (Return p1, s1)"
    and t1: "trace s1 = [ReadFile PROGRESS_FILE,
      Exec (navigate_command (page_url ''navbar-1'')),
      WriteFile PROGRESS_FILE ''completed: ; failed: navbar-1'']"
    by (simp add: sample_processItem_throws component_url_def sample_progress_show_def
          fresh_progress_def)
  obtain p2 s2 rest where step2: "processItem ?ev ?cs 1 p1 s1 = (Return p2, s2)"
    and t2: "trace s2 = trace s1 @ Exec (navigate_command (page_url ''navbar-2'')) # rest"
    using sample_processItem_returns [of ?cs 1 "[''navbar-1'']" p1 s1]
    by (auto simp: component_url_def)
  have "downloadLoop ?ev ?cs 0 ?p0 ?s0 = (Return p2, s2)"
    using step1 step2 by (simp add: downloadLoop_step downloadLoop_done)
  then have "downloadRun ?ev (sample_catalog [''Navbar 1'', ''Navbar 2'']) empty_disk = (Return p2, s2)"
    by (simp add: downloadRun_def bind_def)
  then show ?thesis by (simp add: t1 t2)
qed

section \<open>The entry point\<close>

lemma parse_page_no_message [simp]: "message r = None \<Longrightarrow> parse_page ev r = []"
  by (simp add: parse_page_def)

lemma sample_page_loop:
  "\<exists>s'. page_loop (sample_env broken) maxPages page comps s = (Return comps, s') \<and>
         files s' = files s \<and>
         set (trace s') \<subseteq> set (trace s) \<union>
           {Exec components_command, Exec next_page_command, Sleep DELAY_MS}"
proof (induction "nat (maxPages + 1 - page)" arbitrary: page comps s)
  case 0
  then show ?case by (auto simp: page_loop.simps)
next
  case (Suc k)
  then have le: "page \<le> maxPages" and k: "k = nat (maxPages + 1 - (page + 1))" by auto
  let ?s1 = "emit (Exec components_command) s"
  let ?s2 = "if page < maxPages
             then emit (Sleep DELAY_MS) (emit (Exec next_page_command) ?s1) else ?s1"
  have step: "page_loop (sample_env broken) maxPages page comps s =
              page_loop (sample_env broken) maxPages (page + 1) comps ?s2"
    using le
    by (subst page_loop.simps) (simp add: browserCommand_def bind_def)
  from Suc.hyps(1) [OF k, of comps ?s2]
  show ?case unfolding step by auto
qed


lemma listing_not_page [simp]: "LISTING_URL \<noteq> page_url sl"
  by (simp add: LISTING_URL_def page_url_def)

lemma sample_respond_listing [simp]:
  "sample_respond broken (navigate_command LISTING_URL) = Answer ok_reply"
  by (auto simp: sample_respond_def)

lemma sample_discoverComponents:
  "\<exists>s'. discoverComponents (sample_env broken) maxPages s =
           (Return \<lparr>totalComponents = 0, discoveredAt = ''2024-01-01T00:00:00.000Z'',
                    components = []\<rparr>, s') \<and>
         files s' = (files s)(CATALOG_FILE \<mapsto> []) \<and>
         set (trace s') \<subseteq> set (trace s) \<union>
           {Exec (navigate_command LISTING_URL), Sleep 3000, Exec categories_command,
            Exec components_command, Exec next_page_command, Sleep DELAY_MS,
            WriteFile CATALOG_FILE []}"
proof -
  let ?s3 = "emit (Exec categories_command)
               (emit (Sleep 3000) (emit (Exec (navigate_command LISTING_URL)) s))"
  obtain s4 where loop: "page_loop (sample_env broken) maxPages 1 [] ?s3 = (Return [], s4)"
    and f4: "files s4 = files ?s3"
    and t4: "set (trace s4) \<subseteq> set (trace ?s3) \<union>
           {Exec components_command, Exec next_page_command, Sleep DELAY_MS}"
    using sample_page_loop [of broken maxPages 1 "[]" ?s3] by blast
  have "discoverComponents (sample_env broken) maxPages s =
          (Return \<lparr>totalComponents = 0, discoveredAt = ''2024-01-01T00:00:00.000Z'',
                    components = []\<rparr>,
           (emit (WriteFile CATALOG_FILE []) s4)\<lparr>files := (files s4)(CATALOG_FILE \<mapsto> [])\<rparr>)"
    using loop
    by (simp add: discoverComponents_def bind_def browserCommand_def saveCatalog_def
          writeFile_def ret_def)
  moreover have "set (trace s4) \<subseteq> set (trace s) \<union>
           {Exec (navigate_command LISTING_URL), Sleep 3000, Exec categories_command,
            Exec components_command, Exec next_page_command, Sleep DELAY_MS}"
    using t4 by auto
  ultimately show ?thesis using f4 by auto
qed

lemma sample_loadProgress_any:
  "loadProgress (sample_env broken) s =
     (Return (fresh_progress ''2024-01-01T00:00:00.000Z''), emit (ReadFile PROGRESS_FILE) s)"
  by (simp add: loadProgress_def try_catch_def bind_def readFile_def throw_def
           split: option.splits)

lemma downloadComponents_empty:
  assumes "components catalog = []"
  shows "downloadComponents ev catalog s = (Return (), emit (ReadFile PROGRESS_FILE) s)"
proof -
  obtain p where "loadProgress ev s = (Return p, emit (ReadFile PROGRESS_FILE) s)"
    using loadProgress_returns [of ev s] by blast
  then show ?thesis
    using assms
    by (simp add: downloadComponents_def downloadRun_def bind_def remaining_of_def
          downloadLoop_done ret_def)
qed

lemma browserCommand_state:
  "snd (browserCommand ev c s) = emit (Exec c) s"
  by (simp add: browserCommand_def split: answer.splits)

lemma browserCommand_cases:
  obtains (returns) r where "browserCommand ev c s = (Return r, emit (Exec c) s)"
        | (throws) e where "browserCommand ev c s = (Throw e, emit (Exec c) s)"
proof (cases "respond ev (trace s) c")
  case (Crash msg)
  then show ?thesis using throws by (simp add: browserCommand_def)
next
  case (Answer r)
  then show ?thesis using returns throws by (cases "success r") (simp_all add: browserCommand_def)
qed

lemma main_dispatch_exits:
  "dispatch ev args s = (Exit n, s1) \<Longrightarrow> main ev args s = (Exit n, s1)"
  by (simp add: main_def try_catch_def bind_def)

lemma main_dispatch_throws:
  "dispatch ev args s = (Throw e, s1) \<Longrightarrow>
   main ev args s = (Exit 1, emit (Exec close_command) (emit (Console (FatalError e)) s1))"
  by (rule browserCommand_cases [of ev close_command "emit (Console (FatalError e)) s1"])
     (simp_all add: main_def try_catch_def bind_def console_def ret_def process_exit_def)

lemma main_close_returns:
  "dispatch ev args s = (Return (), s1) \<Longrightarrow>
   browserCommand ev close_command s1 = (Return r, s2) \<Longrightarrow>
   main ev args s = (Return (), emit (Console AllDone) (emit (Exec close_command) s1))"
  using browserCommand_state [of ev close_command s1]
  by (simp add: main_def try_catch_def bind_def console_def)

lemma main_close_throws:
  "dispatch ev args s = (Return (), s1) \<Longrightarrow>
   browserCommand ev close_command s1 = (Throw e, s2) \<Longrightarrow>
   main ev args s =
     (Exit 1, emit (Exec close_command)
                (emit (Console (FatalError e)) (emit (Exec close_command) s1)))"
  using browserCommand_state [of ev close_command s1]
  by (cases rule: browserCommand_cases
        [of ev close_command "emit (Console (FatalError e)) (emit (Exec close_command) s1)"])
     (simp_all add: main_def try_catch_def bind_def console_def ret_def process_exit_def)

lemma dispatch_unknown:
  "take 1 args \<noteq> [''discover''] \<Longrightarrow> take 1 args \<noteq> [''download''] \<Longrightarrow>
   take 1 args \<noteq> [''all''] \<Longrightarrow>
   dispatch ev args s = (Exit 1, emit (Console Usage) s)"
  by (simp add: dispatch_def bind_def console_def process_exit_def)

lemma dispatch_download_empty:
  "take 1 args = [''download''] \<Longrightarrow> loadCatalog ev s = (Return catalog, s1) \<Longrightarrow>
   components catalog = [] \<Longrightarrow>
   dispatch ev args s = (Exit 1, emit (Console NoComponents) s1)"
  by (simp add: dispatch_def bind_def console_def process_exit_def)

lemma dispatch_all_empty:
  "take 1 args = [''all''] \<Longrightarrow> discoverComponents ev 32 s = (Return catalog, s1) \<Longrightarrow>
   components catalog = [] \<Longrightarrow>
   dispatch ev args s = (Return (), emit (ReadFile PROGRESS_FILE) s1)"
  by (simp add: dispatch_def bind_def downloadComponents_empty)

lemma sample_loadCatalog [simp]:
  "loadCatalog (sample_env broken) s =
     (Return (fresh_catalog ''2024-01-01T00:00:00.000Z''), emit (ReadFile CATALOG_FILE) s)"
  by (simp add: loadCatalog_def try_catch_def bind_def readFile_def throw_def
           split: option.splits)

lemma sample_main_all:
  "fst (main (sample_env []) [''all''] empty_disk) = Return () \<and>
   Console NoComponents \<notin> set (trace (snd (main (sample_env []) [''all''] empty_disk))) \<and>
   last (trace (snd (main (sample_env []) [''all''] empty_disk))) = Console AllDone"
proof -
  obtain s1 where disc: "discoverComponents (sample_env []) 32 empty_disk =
           (Return \<lparr>totalComponents = 0, discoveredAt = ''2024-01-01T00:00:00.000Z'',
                    components = []\<rparr>, s1)"
    and t1: "set (trace s1) \<subseteq> set (trace empty_disk) \<union>
           {Exec (navigate_command LISTING_URL), Sleep 3000, Exec categories_command,
            Exec components_command, Exec next_page_command, Sleep DELAY_MS,
            WriteFile CATALOG_FILE []}"
    using sample_discoverComponents [of "[]" 32 empty_disk] by blast
  have d: "dispatch (sample_env []) [''all''] empty_disk =
             (Return (), emit (ReadFile PROGRESS_FILE) s1)"
    by (rule dispatch_all_empty [OF _ disc]) simp_all
  have c: "browserCommand (sample_env []) close_command (emit (ReadFile PROGRESS_FILE) s1) =
             (Return ok_reply, emit (Exec close_command) (emit (ReadFile PROGRESS_FILE) s1))"
    by (simp add: browserCommand_def)
  show ?thesis
    unfolding main_close_returns [OF d c] using t1 by auto
qed

lemma sample_main_download:
  "main (sample_env []) [''download''] empty_disk =
     (Exit 1, emit (Console NoComponents) (emit (ReadFile CATALOG_FILE) empty_disk))"
  by (rule main_dispatch_exits, rule dispatch_download_empty [OF _ sample_loadCatalog])
     (simp_all add: fresh_catalog_def)

lemma sample_main_help:
  "main (sample_env []) [''help''] empty_disk = (Exit 1, emit (Console Usage) empty_disk)"
  by (rule main_dispatch_exits, rule dispatch_unknown) simp_all

text \<open>
  Claim C3 fails on the combined run. In the sample environment discovery finds no
  component; the command \<^verbatim>\<open>all\<close> then runs the download on the empty catalog, reports
  nothing about it and ends normally, with status 0.
\<close>

theorem empty_catalog_all_counterexample:
  "map_option components
     (returned (fst (discoverComponents (sample_env []) 32 empty_disk))) = Some [] \<and>
   exit_status (fst (main (sample_env []) [''all''] empty_disk)) = 0 \<and>
   Console NoComponents \<notin> set (trace (snd (main (sample_env []) [''all''] empty_disk))) \<and>
   last (trace (snd (main (sample_env []) [''all''] empty_disk))) = Console AllDone"
  using sample_main_all sample_discoverComponents [of "[]" 32 empty_disk]
  by (auto simp: returned_def exit_status_def)

text \<open>
  Claim C3, amended. The check for an empty catalog belongs to the command \<^verbatim>\<open>download\<close> of
  the entry point: when the catalog it loads has no components, the run reports that there
  are no components in the catalog and exits with status 1, and the download is not
  started. \<^verbatim>\<open>downloadComponents\<close> itself makes no such check: on a catalog without components
  it reads the progress file, runs no iteration and returns; so does the command \<^verbatim>\<open>all\<close> when
  discovery returns an empty catalog.
\<close>

theorem empty_catalog_fail_fast:
  "(take 1 args = [''download''] \<and> loadCatalog ev s = (Return catalog, s1) \<and>
    components catalog = [] \<longrightarrow>
      main ev args s = (Exit 1, emit (Console NoComponents) s1)) \<and>
   (components catalog = [] \<longrightarrow>
      downloadComponents ev catalog s = (Return (), emit (ReadFile PROGRESS_FILE) s)) \<and>
   (take 1 args = [''all''] \<and> discoverComponents ev 32 s = (Return catalog, s1) \<and>
    components catalog = [] \<longrightarrow>
      dispatch ev args s = (Return (), emit (ReadFile PROGRESS_FILE) s1))"
  using main_dispatch_exits [OF dispatch_download_empty, of args ev s catalog s1]
        downloadComponents_empty [of catalog ev s]
        dispatch_all_empty [of args ev s catalog s1]
  by blast

theorem empty_catalog_fail_fast_witness:
  "exit_status (fst (main (sample_env []) [''download''] empty_disk)) = 1 \<and>
   trace (snd (main (sample_env []) [''download''] empty_disk)) =
     [ReadFile CATALOG_FILE, Console NoComponents] \<and>
   downloadComponents (sample_env []) (fresh_catalog ''2024-01-01T00:00:00.000Z'') empty_disk =
     (Return (), emit (ReadFile PROGRESS_FILE) empty_disk) \<and>
   fst (dispatch (sample_env []) [''all''] empty_disk) = Return ()"
proof -
  let ?ev = "sample_env []"
  let ?cat = "fresh_catalog ''2024-01-01T00:00:00.000Z''"
  have a: "take 1 [''download''] = [''download''] \<and>
           loadCatalog ?ev empty_disk = (Return ?cat, emit (ReadFile CATALOG_FILE) empty_disk) \<and>
           components ?cat = []"
    by (simp add: fresh_catalog_def)
  obtain s1 where disc: "discoverComponents ?ev 32 empty_disk =
           (Return \<lparr>totalComponents = 0, discoveredAt = ''2024-01-01T00:00:00.000Z'',
                    components = []\<rparr>, s1)"
    using sample_discoverComponents [of "[]" 32 empty_disk] by blast
  then have c: "take 1 [''all''] = [''all''] \<and>
           discoverComponents ?ev 32 empty_disk = (Return ?cat, s1) \<and> components ?cat = []"
    by (simp add: fresh_catalog_def)
  have m: "main ?ev [''download''] empty_disk =
             (Exit 1, emit (Console NoComponents) (emit (ReadFile CATALOG_FILE) empty_disk))"
    using empty_catalog_fail_fast
            [of "[''download'']" ?ev empty_disk ?cat "emit (ReadFile CATALOG_FILE) empty_disk"] a
    by blast
  have d: "downloadComponents ?ev ?cat empty_disk = (Return (), emit (ReadFile PROGRESS_FILE) empty_disk)"
    using empty_catalog_fail_fast [of "[]" ?ev empty_disk ?cat empty_disk] a by blast
  have l: "dispatch ?ev [''all''] empty_disk = (Return (), emit (ReadFile PROGRESS_FILE) s1)"
    using empty_catalog_fail_fast [of "[''all'']" ?ev empty_disk ?cat s1] c by blast
  show ?thesis
    unfolding m d l by (simp add: exit_status_def)
qed

lemma offline_env_simps [simp]:
  "respond offline_env h c = Crash ''browser: command not found''"
  "fs_fault offline_env h e = None"
  "outside offline_env h p = Some ''{}''"
  "catalog_parse offline_env t =
     Some \<lparr>totalComponents = 1, discoveredAt = ''2024-01-01T00:00:00.000Z'',
           components = [component_of_name ''Navbar 1'']\<rparr>"
  "progress_parse offline_env t =
     Some \<lparr>completed = [''navbar-1''], failed = [], lastUpdated = ''2024-01-01T00:00:00.000Z''\<rparr>"
  by (simp_all add: offline_env_def)

lemma offline_dispatch_download:
  "dispatch offline_env [''download''] empty_disk =
     (Return (), emit (ReadFile PROGRESS_FILE) (emit (ReadFile CATALOG_FILE) empty_disk))"
  by (simp add: dispatch_def bind_def loadCatalog_def loadProgress_def try_catch_def readFile_def
        disk_def ret_def downloadComponents_def downloadRun_def remaining_of_def
        array_includes_def downloadLoop_done)

lemma offline_dispatch_discover:
  "dispatch offline_env [''discover''] empty_disk =
     (Throw ''browser: command not found'', emit (Exec (navigate_command LISTING_URL)) empty_disk)"
  by (simp add: dispatch_def bind_def discoverComponents_def browserCommand_def)

lemma offline_close:
  "browserCommand offline_env close_command s =
     (Throw ''browser: command not found'', emit (Exec close_command) s)"
  by (simp add: browserCommand_def)

text \<open>
  Claim C4 fails on the two direct exits. With no known command the run prints the usage
  and exits with status 1; with \<^verbatim>\<open>download\<close> and no catalog it reports the empty catalog and
  exits with status 1. Neither run issues the close command.
\<close>

theorem close_not_attempted_counterexample:
  "exit_status (fst (main (sample_env []) [''help''] empty_disk)) = 1 \<and>
   trace (snd (main (sample_env []) [''help''] empty_disk)) = [Console Usage] \<and>
   exit_status (fst (main (sample_env []) [''download''] empty_disk)) = 1 \<and>
   trace (snd (main (sample_env []) [''download''] empty_disk)) =
     [ReadFile CATALOG_FILE, Console NoComponents] \<and>
   Exec close_command \<notin> set [Console Usage] \<and>
   Exec close_command \<notin> set [ReadFile CATALOG_FILE, Console NoComponents]"
  by (simp add: sample_main_help sample_main_download exit_status_def)

text \<open>
  Claim C4, amended. When the dispatched command returns, the close command is issued; if
  it succeeds the run ends normally. When the command throws, or that close throws, the
  error is reported as fatal, the close command is issued (once more), whatever it answers
  is ignored, and the process exits with status 1. The two direct exits, an unknown or
  missing command and \<^verbatim>\<open>download\<close> on an empty catalog, end the process with status 1 at once:
  nothing follows them, and the close command is not issued.
\<close>

theorem close_on_exit_paths:
  "(dispatch ev args s = (Return (), s1) \<and>
    browserCommand ev close_command s1 = (Return r, s2) \<longrightarrow>
      main ev args s = (Return (), emit (Console AllDone) (emit (Exec close_command) s1))) \<and>
   (dispatch ev args s = (Return (), s1) \<and>
    browserCommand ev close_command s1 = (Throw e, s2) \<longrightarrow>
      main ev args s =
        (Exit 1, emit (Exec close_command)
                   (emit (Console (FatalError e)) (emit (Exec close_command) s1)))) \<and>
   (dispatch ev args s = (Throw e, s1) \<longrightarrow>
      main ev args s =
        (Exit 1, emit (Exec close_command) (emit (Console (FatalError e)) s1))) \<and>
   (dispatch ev args s = (Exit n, s1) \<longrightarrow> main ev args s = (Exit n, s1)) \<and>
   (take 1 args \<noteq> [''discover''] \<and> take 1 args \<noteq> [''download''] \<and>
    take 1 args \<noteq> [''all''] \<longrightarrow>
      dispatch ev args s = (Exit 1, emit (Console Usage) s)) \<and>
   (take 1 args = [''download''] \<and> loadCatalog ev s = (Return catalog, s1) \<and>
    components catalog = [] \<longrightarrow>
      dispatch ev args s = (Exit 1, emit (Console NoComponents) s1))"
  using main_close_returns [of ev args s s1 r s2] main_close_throws [of ev args s s1 e s2]
        main_dispatch_throws [of ev args s e s1] main_dispatch_exits [of ev args s n s1]
        dispatch_unknown [of args ev s] dispatch_download_empty [of args ev s catalog s1]
  by blast

theorem close_on_exit_paths_witness:
  "exit_status (fst (main (sample_env []) [''all''] empty_disk)) = 0 \<and>
   take 2 (rev (trace (snd (main (sample_env []) [''all''] empty_disk)))) =
     [Console AllDone, Exec close_command] \<and>
   exit_status (fst (main offline_env [''download''] empty_disk)) = 1 \<and>
   trace (snd (main offline_env [''download''] empty_disk)) =
     [ReadFile CATALOG_FILE, ReadFile PROGRESS_FILE, Exec close_command,
      Console (FatalError ''browser: command not found''), Exec close_command] \<and>
   exit_status (fst (main offline_env [''discover''] empty_disk)) = 1 \<and>
   trace (snd (main offline_env [''discover''] empty_disk)) =
     [Exec (navigate_command LISTING_URL),
      Console (FatalError ''browser: command not found''), Exec close_command] \<and>
   main (sample_env []) [''help''] empty_disk = (Exit 1, emit (Console Usage) empty_disk) \<and>
   main (sample_env []) [''download''] empty_disk =
     (Exit 1, emit (Console NoComponents) (emit (ReadFile CATALOG_FILE) empty_disk))"
proof -
  let ?ev = "sample_env []"
  obtain s1 where disc: "discoverComponents ?ev 32 empty_disk =
           (Return \<lparr>totalComponents = 0, discoveredAt = ''2024-01-01T00:00:00.000Z'',
                    components = []\<rparr>, s1)"
    using sample_discoverComponents [of "[]" 32 empty_disk] by blast
  have d1: "dispatch ?ev [''all''] empty_disk = (Return (), emit (ReadFile PROGRESS_FILE) s1)"
    by (rule dispatch_all_empty [OF _ disc]) simp_all
  have c1: "browserCommand ?ev close_command (emit (ReadFile PROGRESS_FILE) s1) =
             (Return ok_reply, emit (Exec close_command) (emit (ReadFile PROGRESS_FILE) s1))"
    by (simp add: browserCommand_def)
  have m1: "main ?ev [''all''] empty_disk =
      (Return (), emit (Console AllDone) (emit (Exec close_command) (emit (ReadFile PROGRESS_FILE) s1)))"
    using close_on_exit_paths [of ?ev "[''all'']" empty_disk "emit (ReadFile PROGRESS_FILE) s1"
            ok_reply "emit (Exec close_command) (emit (ReadFile PROGRESS_FILE) s1)"] d1 c1
    by blast
  have m2: "main offline_env [''download''] empty_disk =
      (Exit 1, emit (Exec close_command)
                   (emit (Console (FatalError ''browser: command not found''))
                      (emit (Exec close_command)
                         (emit (ReadFile PROGRESS_FILE) (emit (ReadFile CATALOG_FILE) empty_disk)))))"
    using close_on_exit_paths [of offline_env "[''download'']" empty_disk
            "emit (ReadFile PROGRESS_FILE) (emit (ReadFile CATALOG_FILE) empty_disk)"
            _ _ "''browser: command not found''"]
          offline_dispatch_download offline_close
    by blast
  have m3: "main offline_env [''discover''] empty_disk =
      (Exit 1, emit (Exec close_command)
                   (emit (Console (FatalError ''browser: command not found''))
                      (emit (Exec (navigate_command LISTING_URL)) empty_disk)))"
    using close_on_exit_paths [of offline_env "[''discover'']" empty_disk
            "emit (Exec (navigate_command LISTING_URL)) empty_disk"
            _ _ "''browser: command not found''"]
          offline_dispatch_discover
    by blast
  have d4: "dispatch ?ev [''help''] empty_disk = (Exit 1, emit (Console Usage) empty_disk)"
    using close_on_exit_paths [of ?ev "[''help'']" empty_disk] by simp
  have m4: "main ?ev [''help''] empty_disk = (Exit 1, emit (Console Usage) empty_disk)"
    using close_on_exit_paths [of ?ev "[''help'']" empty_disk "emit (Console Usage) empty_disk"
            _ _ _ 1] d4
    by blast
  have d5: "dispatch ?ev [''download''] empty_disk =
      (Exit 1, emit (Console NoComponents) (emit (ReadFile CATALOG_FILE) empty_disk))"
    using close_on_exit_paths [of ?ev "[''download'']" empty_disk
            "emit (ReadFile CATALOG_FILE) empty_disk" _ _ _ _
            "fresh_catalog ''2024-01-01T00:00:00.000Z''"]
    by (simp add: fresh_catalog_def)
  have m5: "main ?ev [''download''] empty_disk =
      (Exit 1, emit (Console NoComponents) (emit (ReadFile CATALOG_FILE) empty_disk))"
    using close_on_exit_paths [of ?ev "[''download'']" empty_disk
            "emit (Console NoComponents) (emit (ReadFile CATALOG_FILE) empty_disk)" _ _ _ 1] d5
    by blast
  show ?thesis
    unfolding m1 m2 m3 m4 m5 by (simp add: exit_status_def)
qed

section \<open>From a name to its slug and back\<close>

lemma upper_table:
  "list_all (\<lambda>c. \<not> is_space c \<and> c \<noteq> CHR ''-'' \<and> upper_char (lower_char c) = [c] \<and>
                 is_ascii (lower_char c)) upper_letters"
  by (simp add: char_defs is_ascii_def)

lemma lower_table:
  "list_all (\<lambda>c. \<not> is_space c \<and> c \<noteq> CHR ''-'' \<and> lower_char c = c)
     (lower_letters @ latin_lower)"
  by (simp add: char_defs)

lemma digit_table:
  "list_all (\<lambda>c. \<not> is_space c \<and> c \<noteq> CHR ''-'' \<and> lower_char c = c \<and> upper_char c = [c])
     digit_chars"
  by (simp add: char_defs)

lemma space_table:
  "list_all (\<lambda>c. lower_char c = c)
     [CHR 0x09, CHR 0x0A, CHR 0x0B, CHR 0x0C, CHR 0x0D, CHR 0x20, CHR 0xA0]"
  by (simp add: char_defs)

lemma latin_table:
  "list_all (\<lambda>c. \<not> is_ascii c) (CHR 0xDF # latin_upper @ latin_lower)"
  by (simp add: latin_upper_def latin_lower_def is_ascii_def)

lemma case_tables_length:
  "length (upper_letters @ latin_upper) = length (lower_letters @ latin_lower)"
  by (simp add: upper_letters_def lower_letters_def latin_upper_def latin_lower_def)

lemma lower_facts:
  assumes "is_lower c"
  shows "\<not> is_space c" "c \<noteq> CHR ''-''" "lower_char c = c"
  using assms lower_table unfolding is_lower_def list_all_iff by auto

lemma digit_facts:
  assumes "is_digit c"
  shows "\<not> is_space c" "c \<noteq> CHR ''-''" "lower_char c = c" "upper_char c = [c]"
  using assms digit_table unfolding is_digit_def list_all_iff by blast+

lemma space_facts:
  assumes "is_space c"
  shows "lower_char c = c"
proof -
  have "c \<in> set [CHR 0x09, CHR 0x0A, CHR 0x0B, CHR 0x0C, CHR 0x0D, CHR 0x20, CHR 0xA0]"
    using assms unfolding is_space_def by simp
  then show ?thesis using space_table unfolding list_all_iff by blast
qed

text \<open>Lower-casing either leaves a code unit or gives a small letter.\<close>

lemma lower_char_cases:
  "lower_char c = c \<or> lower_char c \<in> set (lower_letters @ latin_lower)"
proof (cases "map_of (zip (upper_letters @ latin_upper) (lower_letters @ latin_lower)) c")
  case None
  then show ?thesis by (simp add: lower_char_def)
next
  case (Some d)
  then have "d \<in> set (lower_letters @ latin_lower)"
    by (meson map_of_SomeD set_zip_rightD)
  then show ?thesis using Some by (simp add: lower_char_def)
qed

lemma small_letter_facts:
  assumes "d \<in> set (lower_letters @ latin_lower)"
  shows "\<not> is_space d" "d \<noteq> CHR ''-''" "lower_char d = d"
  using assms lower_table unfolding list_all_iff by blast+

lemma lower_char_not_space: "\<not> is_space c \<Longrightarrow> \<not> is_space (lower_char c)"
  using lower_char_cases [of c] small_letter_facts(1) [of "lower_char c"] by auto

lemma lower_char_not_hyphen: "c \<noteq> CHR ''-'' \<Longrightarrow> lower_char c \<noteq> CHR ''-''"
  using lower_char_cases [of c] small_letter_facts(2) [of "lower_char c"] by auto

lemma lower_char_idem [simp]: "lower_char (lower_char c) = lower_char c"
  using lower_char_cases [of c] small_letter_facts(3) [of "lower_char c"] by auto

lemma upper_facts:
  assumes "is_upper c"
  shows "\<not> is_space c" "c \<noteq> CHR ''-''" "upper_char (lower_char c) = [c]"
    "\<not> is_space (lower_char c)" "lower_char c \<noteq> CHR ''-''" "is_ascii (lower_char c)"
proof -
  have t: "\<not> is_space c \<and> c \<noteq> CHR ''-'' \<and> upper_char (lower_char c) = [c] \<and>
           is_ascii (lower_char c)"
    using assms upper_table unfolding is_upper_def list_all_iff by blast
  show "\<not> is_space c" "c \<noteq> CHR ''-''" "upper_char (lower_char c) = [c]"
    "is_ascii (lower_char c)"
    using t by simp_all
  show "\<not> is_space (lower_char c)" using t lower_char_not_space by blast
  show "lower_char c \<noteq> CHR ''-''" using t lower_char_not_hyphen by blast
qed

lemma replace_spaces_word:
  "list_all (\<lambda>c. \<not> is_space c) x \<Longrightarrow> replace_spaces r (x @ rest) = x @ replace_spaces r rest"
  by (induction x) auto

lemma dropWhile_start: "rest = [] \<or> \<not> P (hd rest) \<Longrightarrow> dropWhile P rest = rest"
  by (cases rest) auto

lemma replace_spaces_gap:
  assumes "sp \<noteq> []" "list_all is_space sp" "rest = [] \<or> \<not> is_space (hd rest)"
  shows "replace_spaces r (sp @ rest) = r @ replace_spaces r rest"
proof -
  obtain c cs where sp: "sp = c # cs" using assms(1) by (cases sp) auto
  have "dropWhile is_space (cs @ rest) = dropWhile is_space rest"
    using assms(2) sp by (intro dropWhile_append2) (simp add: list_all_iff)
  then show ?thesis
    using assms sp by (simp add: dropWhile_start)
qed

lemma split_on_piece:
  "d \<notin> set x \<Longrightarrow> split_on d (x @ d # rest) = x # split_on d rest"
  by (induction x) auto

lemma split_on_single: "d \<notin> set x \<Longrightarrow> split_on d x = [x]"
  by (induction x) auto

lemma toLowerCase_append [simp]: "toLowerCase (a @ b) = toLowerCase a @ toLowerCase b"
  by (simp add: toLowerCase_def)

lemma toLowerCase_fixed: "list_all (\<lambda>c. lower_char c = c) x \<Longrightarrow> toLowerCase x = x"
  by (simp add: toLowerCase_def list_all_iff map_idI)

lemma toLowerCase_spaces: "list_all is_space sp \<Longrightarrow> toLowerCase sp = sp"
  by (rule toLowerCase_fixed) (simp add: list_all_iff space_facts)

lemma toLowerCase_digits: "list_all is_digit num \<Longrightarrow> toLowerCase num = num"
  by (rule toLowerCase_fixed) (simp add: list_all_iff digit_facts)

lemma capitalized_lower:
  assumes "capitalized w"
  shows "list_all (\<lambda>c. \<not> is_space c) (toLowerCase w)"
    and "CHR ''-'' \<notin> set (toLowerCase w)"
    and "capitalize (toLowerCase w @ t) = w @ t"
    and "list_all (\<lambda>c. \<not> is_space c) w"
    and "w \<noteq> []" and "\<not> is_space (hd w)"
proof -
  obtain c cs where w: "w = c # cs" and c: "is_upper c" and cs: "list_all is_lower cs"
    using assms by (auto simp: capitalized_def split: list.splits)
  have low: "map lower_char cs = cs"
    using cs by (simp add: list_all_iff map_idI lower_facts)
  have lw: "toLowerCase w = lower_char c # cs"
    by (simp add: w toLowerCase_def low)
  show "list_all (\<lambda>c. \<not> is_space c) (toLowerCase w)"
    using c cs by (simp add: lw list_all_iff upper_facts lower_facts)
  show "CHR ''-'' \<notin> set (toLowerCase w)"
    using c cs upper_facts(5) [OF c] lower_facts(2) by (auto simp: lw list_all_iff)
  have "capitalize ((lower_char c # cs) @ t) = (c # cs) @ t"
    using c by (simp add: capitalize_def toUpperCase_def upper_facts)
  then show "capitalize (toLowerCase w @ t) = w @ t"
    unfolding lw by (simp add: w)
  show "list_all (\<lambda>c. \<not> is_space c) w"
    using c cs by (simp add: w list_all_iff upper_facts lower_facts)
  show "w \<noteq> []" by (simp add: w)
  show "\<not> is_space (hd w)" using c by (simp add: w upper_facts)
qed

lemma digits_facts:
  assumes "num \<noteq> []" "list_all is_digit num"
  shows "list_all (\<lambda>c. \<not> is_space c) num" and "CHR ''-'' \<notin> set num"
    and "capitalize num = num" and "\<not> is_space (hd num)"
proof -
  obtain c cs where n: "num = c # cs" and c: "is_digit c"
    using assms by (cases num) auto
  show "list_all (\<lambda>c. \<not> is_space c) num"
    using assms(2) by (simp add: list_all_iff digit_facts)
  show "CHR ''-'' \<notin> set num"
    using assms(2) digit_facts(2) by (auto simp: list_all_iff)
  show "capitalize num = num"
    using c by (simp add: n capitalize_def toUpperCase_def digit_facts)
  show "\<not> is_space (hd num)" using c by (simp add: n digit_facts)
qed

text \<open>The last word, the white space after it (there may be none) and the number.\<close>

lemma round_trip_tail:
  assumes w: "capitalized w" and sp: "list_all is_space sp"
      and num: "num \<noteq> []" "list_all is_digit num"
  shows "toPascalCase (nameToSlug (w @ sp @ num)) = w @ num"
    and "replace_spaces [] (w @ sp @ num) = w @ num"
proof -
  note cw = capitalized_lower [OF w]
  note dn = digits_facts [OF num]
  have r0: "replace_spaces r num = num" for r
    using replace_spaces_word [OF dn(1), of r "[]"] by simp
  show "replace_spaces [] (w @ sp @ num) = w @ num"
  proof (cases "sp = []")
    case True
    then show ?thesis using replace_spaces_word [OF cw(4), of "[]" num] r0 by simp
  next
    case False
    then show ?thesis
      using replace_spaces_word [OF cw(4), of "[]" "sp @ num"]
            replace_spaces_gap [OF False sp, of num "[]"] dn(4) r0 by simp
  qed
  show "toPascalCase (nameToSlug (w @ sp @ num)) = w @ num"
  proof (cases "sp = []")
    case True
    have "nameToSlug (w @ sp @ num) = toLowerCase w @ num"
      using True replace_spaces_word [OF cw(1), of "''-''" num] r0
      by (simp add: nameToSlug_def toLowerCase_digits [OF num(2)])
    moreover have "CHR ''-'' \<notin> set (toLowerCase w @ num)" using cw(2) dn(2) by simp
    ultimately show ?thesis
      by (simp add: toPascalCase_def split_on_single cw(3))
  next
    case False
    have "nameToSlug (w @ sp @ num) = toLowerCase w @ CHR ''-'' # num"
      using replace_spaces_word [OF cw(1), of "''-''" "sp @ num"]
            replace_spaces_gap [OF False sp, of num "''-''"] dn(4) r0
      by (simp add: nameToSlug_def toLowerCase_digits [OF num(2)] toLowerCase_spaces [OF sp])
    then show ?thesis
      using cw(3) [of "[]"] dn(3)
      by (simp add: toPascalCase_def split_on_piece [OF cw(2)] split_on_single [OF dn(2)])
  qed
qed

lemma round_trip_parts:
  assumes parts: "\<forall>(w, sp) \<in> set parts. capitalized w \<and> sp \<noteq> [] \<and> list_all is_space sp"
      and tail: "tail \<noteq> []" "\<not> is_space (hd tail)"
  shows "toPascalCase (nameToSlug (gapped parts @ tail)) =
           concat (map fst parts) @ toPascalCase (nameToSlug tail)"
    and "replace_spaces [] (gapped parts @ tail) =
           concat (map fst parts) @ replace_spaces [] tail"
    and "gapped parts @ tail \<noteq> []" and "\<not> is_space (hd (gapped parts @ tail))"
  using parts
proof (induction parts)
  case Nil
  {
    case 1 show ?case by (simp add: gapped_def)
  next
    case 2 show ?case by (simp add: gapped_def)
  next
    case 3 show ?case using tail by (simp add: gapped_def)
  next
    case 4 show ?case using tail by (simp add: gapped_def)
  }
next
  case (Cons a parts)
  obtain w sp where a: "a = (w, sp)" by (cases a)
  let ?rest = "gapped parts @ tail"
  {
    case 1
    then have w: "capitalized w" and sp: "sp \<noteq> []" "list_all is_space sp"
      and ps: "\<forall>(w, sp) \<in> set parts. capitalized w \<and> sp \<noteq> [] \<and> list_all is_space sp"
      by (auto simp: a)
    note cw = capitalized_lower [OF w]
    have start: "?rest = [] \<or> \<not> is_space (hd ?rest)" using Cons.IH(4) [OF ps] by simp
    have lstart: "toLowerCase ?rest = [] \<or> \<not> is_space (hd (toLowerCase ?rest))"
    proof (cases ?rest)
      case Nil then show ?thesis by (simp add: toLowerCase_def)
    next
      case (Cons c cs)
      then have "\<not> is_space c" using start by simp
      then have "\<not> is_space (lower_char c)" by (rule lower_char_not_space)
      then show ?thesis using Cons by (simp add: toLowerCase_def)
    qed
    have "nameToSlug (gapped (a # parts) @ tail) = toLowerCase w @ CHR ''-'' # nameToSlug ?rest"
      using replace_spaces_word [OF cw(1), of "''-''" "sp @ toLowerCase ?rest"]
            replace_spaces_gap [OF sp, of "toLowerCase ?rest" "''-''"] lstart
      by (simp add: a gapped_def nameToSlug_def toLowerCase_spaces [OF sp(2)])
    then show ?case
      using Cons.IH(1) [OF ps] cw(3) [of "[]"]
      by (simp add: toPascalCase_def split_on_piece [OF cw(2)] a)
  next
    case 2
    then have w: "capitalized w" and sp: "sp \<noteq> []" "list_all is_space sp"
      and ps: "\<forall>(w, sp) \<in> set parts. capitalized w \<and> sp \<noteq> [] \<and> list_all is_space sp"
      by (auto simp: a)
    note cw = capitalized_lower [OF w]
    have start: "?rest = [] \<or> \<not> is_space (hd ?rest)" using Cons.IH(4) [OF ps] by simp
    show ?case
      using replace_spaces_word [OF cw(4), of "[]" "sp @ ?rest"]
            replace_spaces_gap [OF sp start, of "[]"] Cons.IH(2) [OF ps]
      by (simp add: a gapped_def)
  next
    case 3
    then have "capitalized w" by (auto simp: a)
    then show ?case using capitalized_lower(5) by (simp add: a gapped_def)
  next
    case 4
    then have "capitalized w" by (auto simp: a)
    then show ?case using capitalized_lower(5,6) by (simp add: a gapped_def)
  }
qed


subsection \<open>Up to the case of the letters, on ASCII names\<close>

lemma lower_back_table:
  "list_all (\<lambda>c. toLowerCase (upper_char c) = [c]) lower_letters"
  by (simp add: char_defs toLowerCase_def)

lemma ascii_not_latin:
  assumes "is_ascii c"
  shows "c \<noteq> CHR 0xDF" "c \<notin> set latin_upper" "c \<notin> set latin_lower"
  using assms latin_table unfolding list_all_iff by auto

lemma lower_char_other:
  assumes "\<not> is_upper c" "is_ascii c"
  shows "lower_char c = c"
proof -
  have "c \<notin> set (upper_letters @ latin_upper)"
    using assms ascii_not_latin(2) by (simp add: is_upper_def)
  then have "map_of (zip (upper_letters @ latin_upper) (lower_letters @ latin_lower)) c = None"
    using map_of_zip_is_None [OF case_tables_length, of c] by blast
  then show ?thesis by (simp add: lower_char_def)
qed

lemma lower_char_ascii: "is_ascii c \<Longrightarrow> is_ascii (lower_char c)"
  by (cases "is_upper c") (simp_all add: upper_facts lower_char_other)

lemma upper_char_other:
  assumes "\<not> is_lower c" "is_ascii c"
  shows "upper_char c = [c]"
proof -
  have "c \<notin> set (lower_letters @ latin_lower)"
    using assms ascii_not_latin(3) by (simp add: is_lower_def)
  then have "map_of (zip (lower_letters @ latin_lower) (upper_letters @ latin_upper)) c = None"
    using map_of_zip_is_None [OF case_tables_length [symmetric], of c] by blast
  then show ?thesis using ascii_not_latin(1) [OF assms(2)] by (simp add: upper_char_def)
qed

lemma toLowerCase_Cons [simp]: "toLowerCase (c # cs) = lower_char c # toLowerCase cs"
  by (simp add: toLowerCase_def)

lemma toLowerCase_Nil [simp]: "toLowerCase [] = []"
  by (simp add: toLowerCase_def)

lemma lower_upper_char:
  assumes "is_ascii c"
  shows "toLowerCase (upper_char c) = [lower_char c]"
proof (cases "is_lower c")
  case True
  then have "toLowerCase (upper_char c) = [c]"
    using lower_back_table unfolding is_lower_def list_all_iff by blast
  then show ?thesis using True by (simp add: lower_facts)
next
  case False
  then show ?thesis using assms by (simp add: upper_char_other)
qed

lemma capitalize_Cons: "capitalize (c # p) = upper_char c @ p"
  by (simp add: capitalize_def toUpperCase_def)

lemma toLowerCase_capitalize:
  "list_all is_ascii p \<Longrightarrow> toLowerCase (capitalize p) = toLowerCase p"
  by (cases p) (simp_all add: capitalize_def toUpperCase_def lower_upper_char)

lemma split_on_ascii:
  "list_all is_ascii y \<Longrightarrow> list_all (list_all is_ascii) (split_on d y)"
  by (induction y) (auto split: list.splits)

lemma replace_spaces_ascii:
  "list_all is_ascii r \<Longrightarrow> list_all is_ascii x \<Longrightarrow> list_all is_ascii (replace_spaces r x)"
proof (induction r x rule: replace_spaces.induct)
  case (1 r)
  then show ?case by simp
next
  case (2 r c cs)
  show ?case
  proof (cases "is_space c")
    case True
    have "list_all is_ascii (dropWhile is_space cs)"
      using "2.prems"(2) set_dropWhileD by (fastforce simp: list_all_iff)
    then show ?thesis using True "2.IH"(1) "2.prems"(1) by simp
  next
    case False
    then show ?thesis using "2.IH"(2) "2.prems" by simp
  qed
qed

lemma pascal_of_replaced:
  "CHR ''-'' \<notin> set x \<Longrightarrow> list_all is_ascii x \<Longrightarrow>
   toLowerCase (toPascalCase (replace_spaces ''-'' x)) = toLowerCase (replace_spaces [] x)"
proof (induction "''-''" x rule: replace_spaces.induct)
  case 1
  then show ?case by (simp add: toPascalCase_def capitalize_def toUpperCase_def)
next
  case (2 c cs)
  show ?case
  proof (cases "is_space c")
    case True
    have "CHR ''-'' \<notin> set (dropWhile is_space cs)"
      using "2.prems"(1) set_dropWhileD by fastforce
    moreover have "list_all is_ascii (dropWhile is_space cs)"
      using "2.prems"(2) set_dropWhileD by (fastforce simp: list_all_iff)
    ultimately show ?thesis
      using True "2.hyps"(1) by (simp add: toPascalCase_def capitalize_def toUpperCase_def)
  next
    case False
    have ne: "c \<noteq> CHR ''-''" and rest: "CHR ''-'' \<notin> set cs" using "2.prems"(1) by auto
    have ac: "is_ascii c" and acs: "list_all is_ascii cs" using "2.prems"(2) by auto
    obtain p ps where sp: "split_on (CHR ''-'') (replace_spaces ''-'' cs) = p # ps"
      by (cases "split_on (CHR ''-'') (replace_spaces ''-'' cs)") simp_all
    have "list_all is_ascii (replace_spaces ''-'' cs)"
      using acs by (intro replace_spaces_ascii) (simp_all add: is_ascii_def)
    then have ap: "list_all is_ascii p"
      using split_on_ascii [of "replace_spaces ''-'' cs" "CHR ''-''"] by (simp add: sp)
    have ih: "toLowerCase (capitalize p @ concat (map capitalize ps)) =
                toLowerCase (replace_spaces [] cs)"
      using "2.hyps"(2) [OF False rest acs] by (simp add: toPascalCase_def sp)
    have "toLowerCase (toPascalCase (replace_spaces ''-'' (c # cs))) =
            lower_char c # toLowerCase (p @ concat (map capitalize ps))"
      using False ne by (simp add: toPascalCase_def sp capitalize_Cons lower_upper_char [OF ac])
    also have "toLowerCase (p @ concat (map capitalize ps)) =
                 toLowerCase (capitalize p @ concat (map capitalize ps))"
      by (simp add: toLowerCase_capitalize [OF ap])
    finally show ?thesis using False ih by simp
  qed
qed

lemma lower_char_space [simp]: "is_space (lower_char c) = is_space c"
proof (cases "is_space c")
  case True
  then show ?thesis by (simp add: space_facts)
next
  case False
  then show ?thesis by (simp add: lower_char_not_space)
qed

lemma dropWhile_space_lower:
  "dropWhile is_space (toLowerCase cs) = toLowerCase (dropWhile is_space cs)"
  by (induction cs) auto

lemma replace_spaces_lower:
  "toLowerCase (replace_spaces [] x) = replace_spaces [] (toLowerCase x)"
proof (induction "length x" arbitrary: x rule: less_induct)
  case less
  show ?case
  proof (cases x)
    case Nil
    then show ?thesis by simp
  next
    case (Cons c cs)
    show ?thesis
    proof (cases "is_space c")
      case True
      have "length (dropWhile is_space cs) < length x"
        using Cons by (simp add: length_dropWhile_le less_Suc_eq_le)
      from less [OF this] show ?thesis
        using True Cons by (simp add: dropWhile_space_lower)
    next
      case False
      have "length cs < length x" using Cons by simp
      from less [OF this] show ?thesis using False Cons by simp
    qed
  qed
qed

lemma round_trip_up_to_case:
  assumes "CHR ''-'' \<notin> set nm" "list_all is_ascii nm"
  shows "toLowerCase (toPascalCase (nameToSlug nm)) = toLowerCase (replace_spaces [] nm)"
proof -
  have "CHR ''-'' \<notin> lower_char ` set nm"
    using assms(1) lower_char_not_hyphen by (metis imageE)
  then have "CHR ''-'' \<notin> set (toLowerCase nm)"
    by (simp add: toLowerCase_def)
  moreover have "list_all is_ascii (toLowerCase nm)"
    using assms(2) by (simp add: toLowerCase_def list_all_iff lower_char_ascii)
  ultimately have "toLowerCase (toPascalCase (nameToSlug nm)) =
               toLowerCase (replace_spaces [] (toLowerCase nm))"
    unfolding nameToSlug_def by (rule pascal_of_replaced)
  also have "\<dots> = toLowerCase (toLowerCase (replace_spaces [] nm))"
    by (simp add: replace_spaces_lower)
  also have "\<dots> = toLowerCase (replace_spaces [] nm)"
    by (simp add: toLowerCase_def)
  finally show ?thesis .
qed


text \<open>
  Claim C6. A name made of capitalized words, separated by white space, and a number at
  its end (after white space or directly after the last word): the display form of its
  slug is the name with its white space removed, as for \<^verbatim>\<open>Application Shell 1\<close> and
  \<^verbatim>\<open>ApplicationShell1\<close>. And for every ASCII name without a hyphen the two are equal up to
  the case of the letters.
\<close>

theorem slug_round_trip:
  "(CHR ''-'' \<notin> set nm \<and> list_all is_ascii nm \<longrightarrow>
      toLowerCase (toPascalCase (nameToSlug nm)) = toLowerCase (replace_spaces [] nm)) \<and>
   ((\<forall>(w, sp) \<in> set parts. capitalized w \<and> sp \<noteq> [] \<and> list_all is_space sp) \<and>
    capitalized w \<and> list_all is_space sp \<and> num \<noteq> [] \<and> list_all is_digit num \<longrightarrow>
      toPascalCase (nameToSlug (gapped parts @ w @ sp @ num)) =
        replace_spaces [] (gapped parts @ w @ sp @ num) \<and>
      toPascalCase (nameToSlug (gapped parts @ w @ sp @ num)) =
        concat (map fst parts) @ w @ num)"
proof (intro conjI impI)
  assume "CHR ''-'' \<notin> set nm \<and> list_all is_ascii nm"
  then show "toLowerCase (toPascalCase (nameToSlug nm)) = toLowerCase (replace_spaces [] nm)"
    using round_trip_up_to_case by blast
next
  assume a: "(\<forall>(w, sp) \<in> set parts. capitalized w \<and> sp \<noteq> [] \<and> list_all is_space sp) \<and>
    capitalized w \<and> list_all is_space sp \<and> num \<noteq> [] \<and> list_all is_digit num"
  then have parts: "\<forall>(w, sp) \<in> set parts. capitalized w \<and> sp \<noteq> [] \<and> list_all is_space sp"
    and w: "capitalized w" and sp: "list_all is_space sp"
    and num: "num \<noteq> []" "list_all is_digit num"
    by blast+
  have tail: "w @ sp @ num \<noteq> []" "\<not> is_space (hd (w @ sp @ num))"
    using capitalized_lower(5,6) [OF w] by simp_all
  show p: "toPascalCase (nameToSlug (gapped parts @ w @ sp @ num)) =
        concat (map fst parts) @ w @ num"
    using round_trip_parts(1) [OF parts tail] round_trip_tail(1) [OF w sp num] by simp
  show "toPascalCase (nameToSlug (gapped parts @ w @ sp @ num)) =
        replace_spaces [] (gapped parts @ w @ sp @ num)"
    using p round_trip_parts(2) [OF parts tail] round_trip_tail(2) [OF w sp num] by simp
qed

theorem slug_round_trip_witness:
  "gapped [(''Application'', '' '')] @ ''Shell'' @ '' '' @ ''1'' = ''Application Shell 1'' \<and>
   toPascalCase (nameToSlug ''Application Shell 1'') = ''ApplicationShell1'' \<and>
   replace_spaces [] ''Application Shell 1'' = ''ApplicationShell1'' \<and>
   toLowerCase (toPascalCase (nameToSlug ''Application Shell 1'')) =
     toLowerCase (replace_spaces [] ''Application Shell 1'')"
proof -
  have n: "gapped [(''Application'', '' '')] @ ''Shell'' @ '' '' @ ''1'' = ''Application Shell 1''"
    by (simp add: gapped_def)
  have h: "(\<forall>(w, sp) \<in> set [(''Application'', '' '')].
             capitalized w \<and> sp \<noteq> [] \<and> list_all is_space sp) \<and>
           capitalized ''Shell'' \<and> list_all is_space '' '' \<and> ''1'' \<noteq> [] \<and>
           list_all is_digit ''1''"
    by (simp add: capitalized_def is_upper_def is_lower_def is_digit_def is_space_def
          upper_letters_def lower_letters_def digit_chars_def)
  have nh: "CHR ''-'' \<notin> set ''Application Shell 1'' \<and> list_all is_ascii ''Application Shell 1''"
    by (simp add: is_ascii_def)
  note r = slug_round_trip [of "''Application Shell 1''" "[(''Application'', '' '')]"
             "''Shell''" "'' ''" "''1''", unfolded n]
  have c1: "toLowerCase (toPascalCase (nameToSlug ''Application Shell 1'')) =
              toLowerCase (replace_spaces [] ''Application Shell 1'')"
    using r nh by blast
  have c2: "toPascalCase (nameToSlug ''Application Shell 1'') =
              replace_spaces [] ''Application Shell 1''"
    using r h by blast
  have "toPascalCase (nameToSlug ''Application Shell 1'') =
          concat (map fst [(''Application'', '' '')]) @ ''Shell'' @ ''1''"
    using r h by blast
  then have c3: "toPascalCase (nameToSlug ''Application Shell 1'') = ''ApplicationShell1''"
    by simp
  show ?thesis using n c1 c2 c3 by simp
qed

end
